theory Spec2Isabelle
  imports Main
begin

text \<open>
  A model of the client replica of SwiftLabel, \<open>src/swiftlabel/static/app.js\<close>: the
  class \<open>SwiftLabelApp\<close> with its optimistic label and delete, the reconciliation with
  server broadcasts, cursor navigation, the image prefetch cache, the commit dialogue,
  the WebSocket connection with its reconnection backoff, and the keyboard handler.

  Methods are functions on the application state. What a method does to the outside
  (messages, requests, image loads, toasts) is appended to a log kept in the state, in
  program order. An \<open>async\<close> method is cut at each \<open>await\<close>: the part up to the request
  is one function, and the part after it is another one that takes the response. The
  browser's callbacks into the application are the events of an event loop.

  Of the rendering into the DOM, \<open>displayCurrentImage\<close> is modelled, because giving the
  visible image a URL makes the browser fetch it. Not modelled: the rest of the
  rendering (the other parts of \<open>updateUI\<close>, \<open>renderStats\<close>, \<open>renderFolderNav\<close>,
  \<open>flashButton\<close>, the format badge, the timeouts that only remove a CSS class or a
  toast), which reads the state and writes only DOM nodes; the start-up sequence
  (\<open>init\<close>, the session-resume dialogue, \<open>completeInit\<close>), after which the handlers
  are installed; and console output.
\<close>

section \<open>Configuration (the CONFIG object of app.js)\<close>

definition PREFETCH_COUNT :: int where
  "PREFETCH_COUNT = 3"

definition CACHE_MAX_SIZE :: nat where
  "CACHE_MAX_SIZE = 10"

definition WS_RECONNECT_DELAYS :: "nat list" where
  "WS_RECONNECT_DELAYS = [1000, 2000, 4000, 8000, 16000, 30000]"

definition WS_HEARTBEAT_INTERVAL :: nat where
  "WS_HEARTBEAT_INTERVAL = 30000"

definition DOUBLE_KEY_TIMEOUT :: nat where
  "DOUBLE_KEY_TIMEOUT = 300"

section \<open>JavaScript values\<close>

text \<open>
  A string-valued property that may also hold \<open>null\<close> or \<open>undefined\<close>
  (\<open>class_name\<close> receives \<open>classes[classIndex]\<close>, which is \<open>undefined\<close> out of range).
\<close>

datatype jstring = JUndefined | JNull | JString string

text \<open>\<open>xs[i]\<close> for an integer \<open>i\<close>: \<open>None\<close> stands for \<open>undefined\<close>.\<close>

definition js_index :: "'a list \<Rightarrow> int \<Rightarrow> 'a option" where
  "js_index xs i = (if 0 \<le> i \<and> i < int (length xs) then Some (xs ! nat i) else None)"

definition class_at :: "string list \<Rightarrow> int \<Rightarrow> jstring" where
  "class_at cs i = (case js_index cs i of None \<Rightarrow> JUndefined | Some c \<Rightarrow> JString c)"

text \<open>\<open>s.lastIndexOf(c)\<close> for a single character: the last position of \<open>c\<close>, or \<open>-1\<close>.\<close>

fun lastIndexOf_from :: "char \<Rightarrow> string \<Rightarrow> int \<Rightarrow> int \<Rightarrow> int" where
  "lastIndexOf_from c [] i found = found"
| "lastIndexOf_from c (x # xs) i found =
     lastIndexOf_from c xs (i + 1) (if x = c then i else found)"

definition lastIndexOf :: "string \<Rightarrow> char \<Rightarrow> int" where
  "lastIndexOf s c = lastIndexOf_from c s 0 (- 1)"

text \<open>\<open>s.substring(0, e)\<close>: a negative end counts as 0, an end past the string as its length.\<close>

definition substring0 :: "string \<Rightarrow> int \<Rightarrow> string" where
  "substring0 s e = take (nat e) s"

text \<open>
  \<open>id.substring(0, id.lastIndexOf('/')) || ''\<close>, the folder of an image identifier
  (the empty result is already the fallback of \<open>||\<close>).
\<close>

definition parent_folder :: "string \<Rightarrow> string" where
  "parent_folder p = substring0 p (lastIndexOf p CHR ''/'')"

section \<open>Data model\<close>

record ImageInfo =
  img_id :: string
  filename :: string
  label :: "int option"
  class_name :: jstring
  marked_for_deletion :: bool

text \<open>
  Image objects are shared: \<open>this.currentImage\<close> is a reference to an object that is
  usually, but not always, an element of \<open>this.session.images\<close>. Objects live in a store
  and are named by their address.
\<close>

type_synonym ref = nat

text \<open>
  The fields of the session that the replica reads (\<open>staged_changes\<close> and \<open>undo_stack\<close>
  are carried by the server's JSON and never inspected by this file).
\<close>

record SessionState =
  version :: string
  working_directory :: string
  classes :: "string list"
  images :: "ref list"
  current_index :: int

record PreviewSummary =
  total_changes :: int
  moves :: "(string \<times> string) list"
  deletes :: "string list"
  warnings :: "string list"

record Subfolder =
  path :: string
  name :: string
  image_count :: int

datatype overlay = Help | Stats | Commit

datatype ready_state = CONNECTING | OPEN | CLOSING | CLOSED

text \<open>The image element kept in the cache; its \<open>src\<close> is the image URL of the identifier.\<close>

datatype HTMLImageElement = Img string

section \<open>Effects on the outside world\<close>

text \<open>Client-to-server messages of the real-time channel.\<close>

datatype client_msg =
    MsgLabel string int
  | MsgDelete string
  | MsgUndo
  | MsgNavigate int
  | MsgSync

text \<open>Requests of the REST surface issued through \<open>this.api\<close>.\<close>

datatype api_request =
    GetSession
  | GetStats
  | GetPreview
  | PostCommit
  | GetChangesCount
  | PostNavigateFolder string
  | GetSubfolders

datatype toast_type = Success | Err | Info | Warning

datatype toast_msg =
    TClassNotDefined int
  | TFilterMode
  | TFilterCleared
  | TFilterShowing string
  | TNoUnlabeled
  | TNoChanges
  | TPreviewFailed
  | TCommitting
  | TCommitFailed string
  | TCommitted int int
  | TUndid string string
  | TServerError string

text \<open>
  Everything the replica does to its environment, in program order: messages handed to
  an open socket, REST requests, image loads started by the prefetcher, sockets
  constructed, toasts shown.
\<close>

datatype effect =
    WsSend client_msg
  | ApiCall api_request
  | ImageFetch string
  | WsConnect
  | Toast toast_msg toast_type

text \<open>The callbacks the application hands to \<open>setTimeout\<close> and \<open>setInterval\<close>.\<close>

datatype timer_cb = ReconnectCb | KeyComboCb | HeartbeatCb

section \<open>Application state\<close>

text \<open>
  The fields of \<open>SwiftLabelApp\<close> that hold replica state, followed by the parts of the
  browser the code acts on: the \<open>hidden\<close> attribute of the connection indicator, the
  pending timers (identifier, callback, delay in ms), the identifiers of the \<open>Image\<close>
  objects created by the prefetcher whose load is still in progress, the identifier of
  the image that the visible \<open>img\<close> element is loading, if it is loading one, and the log
  of effects. The fields \<open>stats\<close>, \<open>detectedFormat\<close> and \<open>commitPending\<close> are only
  rendered or never read, and are left out with the rendering.
\<close>

record SwiftLabelApp =
  heap :: "ref \<Rightarrow> ImageInfo"
  heap_next :: ref
  session :: "SessionState option"
  currentImage :: "ref option"
  imageCache :: "(string \<times> HTMLImageElement) list"
  prefetchingImages :: "string set"
  ws :: "ready_state option"
  wsReconnectAttempt :: nat
  wsReconnectTimeout :: "nat option"
  wsHeartbeatInterval :: "nat option"
  activeOverlay :: "overlay option"
  commitPreview :: "PreviewSummary option"
  filterMode :: bool
  lastKey :: "string option"
  keyComboTimeout :: "nat option"
  currentFolder :: string
  subfolders :: "Subfolder list"
  hasFolders :: bool
  userChangesCount :: int
  hasChanges :: bool
  connectionStatusHidden :: bool
  timers :: "(nat \<times> timer_cb \<times> nat) list"
  timer_next :: nat
  loading :: "string list"
  displayLoading :: "string option"
  effects :: "effect list"

text \<open>
  A method either returns or throws. A thrown exception keeps the state reached at the
  point of the throw: the mutations made before it are not undone.
\<close>

datatype error = TypeError | SyntaxError

datatype outcome = Done SwiftLabelApp | Thrown error SwiftLabelApp

fun andThen :: "outcome \<Rightarrow> (SwiftLabelApp \<Rightarrow> outcome) \<Rightarrow> outcome" where
  "andThen (Done s) f = f s"
| "andThen (Thrown e s) f = Thrown e s"

fun state_of :: "outcome \<Rightarrow> SwiftLabelApp" where
  "state_of (Done s) = s"
| "state_of (Thrown e s) = s"

fun returns :: "outcome \<Rightarrow> bool" where
  "returns (Done s) = True"
| "returns (Thrown e s) = False"

section \<open>Primitive operations\<close>

definition emit :: "effect \<Rightarrow> SwiftLabelApp \<Rightarrow> SwiftLabelApp" where
  "emit e s = s\<lparr>effects := effects s @ [e]\<rparr>"

definition showToast :: "toast_msg \<Rightarrow> toast_type \<Rightarrow> SwiftLabelApp \<Rightarrow> SwiftLabelApp" where
  "showToast m ty s = emit (Toast m ty) s"

text \<open>\<open>sendWebSocketMessage\<close>: sends on an open socket, otherwise only warns on the console.\<close>

definition sendWebSocketMessage :: "client_msg \<Rightarrow> SwiftLabelApp \<Rightarrow> SwiftLabelApp" where
  "sendWebSocketMessage m s = (if ws s = Some OPEN then emit (WsSend m) s else s)"

text \<open>Browser timers: \<open>setTimeout\<close> returns a fresh identifier, \<open>clearTimeout\<close> cancels by identifier.\<close>

definition setTimeout :: "timer_cb \<Rightarrow> nat \<Rightarrow> SwiftLabelApp \<Rightarrow> nat \<times> SwiftLabelApp" where
  "setTimeout cb delay s =
     (timer_next s,
      s\<lparr>timers := timers s @ [(timer_next s, cb, delay)], timer_next := timer_next s + 1\<rparr>)"

definition clearTimeout :: "nat option \<Rightarrow> SwiftLabelApp \<Rightarrow> SwiftLabelApp" where
  "clearTimeout h s =
     (case h of None \<Rightarrow> s
      | Some t \<Rightarrow> s\<lparr>timers := filter (\<lambda>p. fst p \<noteq> t) (timers s)\<rparr>)"

text \<open>Timeouts and intervals share the browser's pool of timer identifiers.\<close>

definition setInterval :: "timer_cb \<Rightarrow> nat \<Rightarrow> SwiftLabelApp \<Rightarrow> nat \<times> SwiftLabelApp" where
  "setInterval cb delay s = setTimeout cb delay s"

definition clearInterval :: "nat option \<Rightarrow> SwiftLabelApp \<Rightarrow> SwiftLabelApp" where
  "clearInterval h s = clearTimeout h s"

text \<open>A timer handle is truthy when it is a non-zero number.\<close>

definition truthy_handle :: "nat option \<Rightarrow> bool" where
  "truthy_handle h = (case h of None \<Rightarrow> False | Some t \<Rightarrow> t \<noteq> 0)"

section \<open>Image prefetch cache\<close>

text \<open>
  \<open>imageCache\<close> is a JavaScript \<open>Map\<close>: it iterates in insertion order, \<open>set\<close> on a
  present key keeps the key's position, \<open>delete\<close> removes the key's entry.
\<close>

definition cache_has :: "(string \<times> 'v) list \<Rightarrow> string \<Rightarrow> bool" where
  "cache_has c k = (k \<in> fst ` set c)"

fun cache_set :: "string \<Rightarrow> 'v \<Rightarrow> (string \<times> 'v) list \<Rightarrow> (string \<times> 'v) list" where
  "cache_set k v [] = [(k, v)]"
| "cache_set k v (p # ps) = (if fst p = k then (k, v) # ps else p # cache_set k v ps)"

definition cache_delete :: "string \<Rightarrow> (string \<times> 'v) list \<Rightarrow> (string \<times> 'v) list" where
  "cache_delete k c = filter (\<lambda>p. fst p \<noteq> k) c"

text \<open>Assigning \<open>img.src\<close> on a new \<open>Image\<close> starts a load in the browser.\<close>

definition start_image_load :: "string \<Rightarrow> SwiftLabelApp \<Rightarrow> SwiftLabelApp" where
  "start_image_load imageId s = emit (ImageFetch imageId) (s\<lparr>loading := loading s @ [imageId]\<rparr>)"

text \<open>\<open>prefetchImage\<close>: the synchronous part; the load callbacks are \<open>img_onload\<close> and \<open>img_onerror\<close>.\<close>

definition prefetchImage :: "string \<Rightarrow> SwiftLabelApp \<Rightarrow> SwiftLabelApp" where
  "prefetchImage imageId s =
     (if cache_has (imageCache s) imageId \<or> imageId \<in> prefetchingImages s then s
      else start_image_load imageId
             (s\<lparr>prefetchingImages := insert imageId (prefetchingImages s)\<rparr>))"

definition img_onload :: "string \<Rightarrow> SwiftLabelApp \<Rightarrow> SwiftLabelApp" where
  "img_onload imageId s =
     s\<lparr>imageCache := cache_set imageId (Img imageId) (imageCache s),
       prefetchingImages := prefetchingImages s - {imageId}\<rparr>"

definition img_onerror :: "string \<Rightarrow> SwiftLabelApp \<Rightarrow> SwiftLabelApp" where
  "img_onerror imageId s = s\<lparr>prefetchingImages := prefetchingImages s - {imageId}\<rparr>"

text \<open>
  The loop of \<open>cleanImageCache\<close>: while the cache is over capacity, delete the first key
  of the map.
\<close>

function cleanImageCache_loop :: "(string \<times> 'v) list \<Rightarrow> (string \<times> 'v) list" where
  "cleanImageCache_loop c =
     (if CACHE_MAX_SIZE < length c then cleanImageCache_loop (cache_delete (fst (hd c)) c)
      else c)"
  by pat_completeness auto
termination
proof (relation "measure length")
  show "wf (measure length)" by simp
next
  fix c :: "(string \<times> 'v) list"
  assume "CACHE_MAX_SIZE < length c"
  then obtain p ps where c: "c = p # ps" by (cases c) auto
  have "length (filter (\<lambda>q. fst q \<noteq> fst p) ps) < Suc (length ps)"
    using length_filter_le [of "\<lambda>q. fst q \<noteq> fst p" ps] by arith
  then show "(cache_delete (fst (hd c)) c, c) \<in> measure length"
    by (simp add: c cache_delete_def)
qed

declare cleanImageCache_loop.simps [simp del]

definition cleanImageCache :: "SwiftLabelApp \<Rightarrow> SwiftLabelApp" where
  "cleanImageCache s = s\<lparr>imageCache := cleanImageCache_loop (imageCache s)\<rparr>"

text \<open>
  The first loop of \<open>prefetchImages\<close>, \<open>for (i = 1; i <= PREFETCH_COUNT; i++)\<close>, with
  \<open>currentIndex\<close> read once before it. Reading \<open>.id\<close> of an absent element throws.
\<close>

function prefetch_loop :: "int \<Rightarrow> int \<Rightarrow> SwiftLabelApp \<Rightarrow> outcome" where
  "prefetch_loop currentIndex i s =
     (if i \<le> PREFETCH_COUNT then
        (case session s of
           None \<Rightarrow> Thrown TypeError s
         | Some ses \<Rightarrow>
             (let index = currentIndex + i in
              if index < int (length (images ses)) then
                (case js_index (images ses) index of
                   None \<Rightarrow> Thrown TypeError s
                 | Some r \<Rightarrow>
                     prefetch_loop currentIndex (i + 1) (prefetchImage (img_id (heap s r)) s))
              else prefetch_loop currentIndex (i + 1) s))
      else Done s)"
  by pat_completeness auto
termination
  by (relation "measure (\<lambda>(c, i, s). nat (PREFETCH_COUNT + 1 - i))") auto

declare prefetch_loop.simps [simp del]

definition prefetchImages :: "SwiftLabelApp \<Rightarrow> outcome" where
  "prefetchImages s =
     (case session s of
        None \<Rightarrow> Done s
      | Some ses \<Rightarrow>
          if length (images ses) = 0 then Done s
          else
            andThen (prefetch_loop (current_index ses) 1 s) (\<lambda>s1.
            andThen
              (if current_index ses > 0 then
                 (case js_index (images ses) (current_index ses - 1) of
                    None \<Rightarrow> Thrown TypeError s1
                  | Some r \<Rightarrow> Done (prefetchImage (img_id (heap s1 r)) s1))
               else Done s1) (\<lambda>s2.
            Done (cleanImageCache s2))))"

section \<open>The visible image\<close>

text \<open>
  \<open>displayCurrentImage\<close>, as far as loads go. The visible \<open>img\<close> element has one
  \<open>src\<close> and so at most one load in progress. With no current image the \<open>src\<close> is
  cleared. For a cached image it becomes the \<open>src\<close> of the cached \<open>Image\<close>, which has
  been loaded, and the code takes the image as shown at once, without waiting for a
  load. Otherwise the code sets an \<open>onload\<close> handler and assigns the URL of the image,
  and the element loads it; the in-flight set of the prefetcher is not looked at.
  As for the prefetcher, a load is what the page asks of the browser; whether the
  browser answers it from a cache of its own is not modelled.
\<close>

definition displayCurrentImage :: "SwiftLabelApp \<Rightarrow> SwiftLabelApp" where
  "displayCurrentImage s =
     (case currentImage s of
        None \<Rightarrow> s\<lparr>displayLoading := None\<rparr>
      | Some cur \<Rightarrow>
          (let imageId = img_id (heap s cur)
           in if cache_has (imageCache s) imageId then s\<lparr>displayLoading := None\<rparr>
              else s\<lparr>displayLoading := Some imageId\<rparr>))"

text \<open>\<open>updateUI\<close>: its other parts write text and CSS classes only.\<close>

definition updateUI :: "SwiftLabelApp \<Rightarrow> SwiftLabelApp" where
  "updateUI s = displayCurrentImage s"

section \<open>Navigation\<close>

text \<open>
  \<open>updateFolderContext\<close> up to its first \<open>await\<close>: the POST to \<open>/navigate/folder\<close>.
\<close>

definition updateFolderContext :: "string \<Rightarrow> SwiftLabelApp \<Rightarrow> SwiftLabelApp" where
  "updateFolderContext folderPath s = emit (ApiCall (PostNavigateFolder folderPath)) s"

definition navigateToIndex :: "int \<Rightarrow> SwiftLabelApp \<Rightarrow> outcome" where
  "navigateToIndex index s =
     (case session s of
        None \<Rightarrow> Done s
      | Some ses \<Rightarrow>
          if index < 0 \<or> index \<ge> int (length (images ses)) then Done s
          else
            (let oldImage = currentImage s;
                 newImage = js_index (images ses) index;
                 newFolder =
                   (case oldImage of
                      None \<Rightarrow> None
                    | Some ol \<Rightarrow>
                        (case newImage of
                           None \<Rightarrow> None
                         | Some nw \<Rightarrow>
                             (let oldFolder = parent_folder (img_id (heap s ol));
                                  nf = parent_folder (img_id (heap s nw))
                              in if oldFolder = nf then None else Some nf)));
                 s1 = s\<lparr>session := Some (ses\<lparr>current_index := index\<rparr>),
                         currentImage := newImage\<rparr>
             in andThen (prefetchImages (updateUI s1)) (\<lambda>s2.
                  Done (sendWebSocketMessage (MsgNavigate index)
                          (case newFolder of
                             None \<Rightarrow> s2
                           | Some f \<Rightarrow> updateFolderContext f s2)))))"

definition navigateNext :: "SwiftLabelApp \<Rightarrow> outcome" where
  "navigateNext s =
     (case session s of
        None \<Rightarrow> Done s
      | Some ses \<Rightarrow>
          if length (images ses) = 0 then Done s
          else
            (let nextIndex = min (current_index ses + 1) (int (length (images ses)) - 1)
             in if nextIndex \<noteq> current_index ses then navigateToIndex nextIndex s
                else Done s))"

definition navigatePrevious :: "SwiftLabelApp \<Rightarrow> outcome" where
  "navigatePrevious s =
     (case session s of
        None \<Rightarrow> Done s
      | Some ses \<Rightarrow>
          if length (images ses) = 0 then Done s
          else
            (let prevIndex = max (current_index ses - 1) 0
             in if prevIndex \<noteq> current_index ses then navigateToIndex prevIndex s
                else Done s))"

text \<open>
  \<open>findIndex\<close> over the image list, counting from \<open>i\<close>; \<open>None\<close> stands for \<open>-1\<close>.
  The same search is the loop of \<open>navigateToFirstInFolder\<close>.
\<close>

fun findIndex_from :: "('a \<Rightarrow> bool) \<Rightarrow> 'a list \<Rightarrow> int \<Rightarrow> int option" where
  "findIndex_from P [] i = None"
| "findIndex_from P (x # xs) i = (if P x then Some i else findIndex_from P xs (i + 1))"

definition findIndex :: "('a \<Rightarrow> bool) \<Rightarrow> 'a list \<Rightarrow> int option" where
  "findIndex P xs = findIndex_from P xs 0"

text \<open>The downward loop of \<open>navigateToLastInFolder\<close>: the last position that satisfies \<open>P\<close>.\<close>

definition findLastIndex :: "('a \<Rightarrow> bool) \<Rightarrow> 'a list \<Rightarrow> int option" where
  "findLastIndex P xs =
     (case findIndex P (rev xs) of
        None \<Rightarrow> None
      | Some j \<Rightarrow> Some (int (length xs) - 1 - j))"

definition same_folder :: "SwiftLabelApp \<Rightarrow> string \<Rightarrow> ref \<Rightarrow> bool" where
  "same_folder s parentFolder r = (parent_folder (img_id (heap s r)) = parentFolder)"

definition navigateToFirstInFolder :: "SwiftLabelApp \<Rightarrow> outcome" where
  "navigateToFirstInFolder s =
     (case currentImage s of
        None \<Rightarrow> Done s
      | Some cur \<Rightarrow>
          (case session s of
             None \<Rightarrow> Thrown TypeError s
           | Some ses \<Rightarrow>
               (case findIndex (same_folder s (parent_folder (img_id (heap s cur)))) (images ses) of
                  None \<Rightarrow> Done s
                | Some i \<Rightarrow> navigateToIndex i s)))"

definition navigateToLastInFolder :: "SwiftLabelApp \<Rightarrow> outcome" where
  "navigateToLastInFolder s =
     (case currentImage s of
        None \<Rightarrow> Done s
      | Some cur \<Rightarrow>
          (case session s of
             None \<Rightarrow> Thrown TypeError s
           | Some ses \<Rightarrow>
               (case findLastIndex (same_folder s (parent_folder (img_id (heap s cur)))) (images ses) of
                  None \<Rightarrow> Done s
                | Some i \<Rightarrow> navigateToIndex i s)))"

text \<open>
  The two loops of \<open>navigateToNextUnlabeled\<close>: \<open>for (i = lo; i < hi; i++)\<close> over
  \<open>images[i]\<close>; reading \<open>.label\<close> of an absent element throws.
\<close>

function search_unlabeled :: "(ref \<Rightarrow> ImageInfo) \<Rightarrow> ref list \<Rightarrow> int \<Rightarrow> int \<Rightarrow> error + int option" where
  "search_unlabeled h imgs i hi =
     (if i < hi then
        (case js_index imgs i of
           None \<Rightarrow> Inl TypeError
         | Some r \<Rightarrow>
             if label (h r) = None \<and> \<not> marked_for_deletion (h r) then Inr (Some i)
             else search_unlabeled h imgs (i + 1) hi)
      else Inr None)"
  by pat_completeness auto
termination
  by (relation "measure (\<lambda>(h, imgs, i, hi). nat (hi - i))") auto

declare search_unlabeled.simps [simp del]

definition navigateToNextUnlabeled :: "SwiftLabelApp \<Rightarrow> outcome" where
  "navigateToNextUnlabeled s =
     (case session s of
        None \<Rightarrow> Done s
      | Some ses \<Rightarrow>
          (case search_unlabeled (heap s) (images ses) (current_index ses + 1)
                  (int (length (images ses))) of
             Inl e \<Rightarrow> Thrown e s
           | Inr (Some i) \<Rightarrow> navigateToIndex i s
           | Inr None \<Rightarrow>
               (case search_unlabeled (heap s) (images ses) 0 (current_index ses) of
                  Inl e \<Rightarrow> Thrown e s
                | Inr (Some i) \<Rightarrow> navigateToIndex i s
                | Inr None \<Rightarrow> Done (showToast TNoUnlabeled Info s))))"

section \<open>Optimistic label and delete\<close>

text \<open>
  \<open>labelImage\<close> and \<open>deleteImage\<close> are \<open>async\<close> functions without an \<open>await\<close>: their
  body runs to the end within the call.
\<close>

definition labelImage :: "int \<Rightarrow> SwiftLabelApp \<Rightarrow> outcome" where
  "labelImage classIndex s =
     (case currentImage s of
        None \<Rightarrow> Done s
      | Some cur \<Rightarrow>
          (case session s of
             None \<Rightarrow> Thrown TypeError s
           | Some ses \<Rightarrow>
               (let imageId = img_id (heap s cur);
                    className = class_at (classes ses) classIndex;
                    s1 = s\<lparr>heap := (heap s)(cur := (heap s cur)
                              \<lparr>label := Some classIndex,
                               class_name := className,
                               marked_for_deletion := False\<rparr>)\<rparr>
                in andThen (navigateNext s1) (\<lambda>s2.
                     Done (sendWebSocketMessage (MsgLabel imageId classIndex) s2)))))"

definition deleteImage :: "SwiftLabelApp \<Rightarrow> outcome" where
  "deleteImage s =
     (case currentImage s of
        None \<Rightarrow> Done s
      | Some cur \<Rightarrow>
          (let imageId = img_id (heap s cur);
               s1 = s\<lparr>heap := (heap s)(cur := (heap s cur)
                         \<lparr>label := None,
                          class_name := JNull,
                          marked_for_deletion := True\<rparr>)\<rparr>
           in andThen (navigateNext s1) (\<lambda>s2.
                Done (sendWebSocketMessage (MsgDelete imageId) s2))))"

definition undoAction :: "SwiftLabelApp \<Rightarrow> SwiftLabelApp" where
  "undoAction s = sendWebSocketMessage MsgUndo s"

text \<open>
  A call of an \<open>async\<close> function that is not awaited: an exception inside it rejects the
  returned promise and does not reach the caller.
\<close>

definition not_awaited :: "outcome \<Rightarrow> outcome" where
  "not_awaited r = Done (state_of r)"

section \<open>Reconciliation with server broadcasts\<close>

record LabeledPayload =
  lp_image_id :: string
  lp_class_index :: "int option"
  lp_class_name :: jstring

record StateUpdatePayload =
  su_current_index :: int
  su_current_image :: "ImageInfo option"

text \<open>
  Modelled from the spec: the \<open>restored_state\<close> object of an \<open>undo_completed\<close> message is
  built by the server, which is not part of this file; it is taken to be the snapshot
  of label, class name and deletion flag that the undo entry holds.
\<close>

record RestoredState =
  rs_label :: "int option"
  rs_class_name :: jstring
  rs_marked_for_deletion :: bool

record UndoPayload =
  up_image_id :: string
  up_restored_state :: "RestoredState option"
  up_undone_action :: string

record CommitPayload =
  cp_moves_count :: int
  cp_deletes_count :: int
  cp_errors :: "string list"

text \<open>\<open>updateChangeCount\<close> up to its \<open>await\<close>: the GET of \<open>/changes/count\<close>.\<close>

definition updateChangeCount :: "SwiftLabelApp \<Rightarrow> SwiftLabelApp" where
  "updateChangeCount s = emit (ApiCall GetChangesCount) s"

definition find_image :: "SwiftLabelApp \<Rightarrow> ref list \<Rightarrow> string \<Rightarrow> ref option" where
  "find_image s imgs imageId = List.find (\<lambda>r. img_id (heap s r) = imageId) imgs"

definition handleImageLabeled :: "LabeledPayload \<Rightarrow> SwiftLabelApp \<Rightarrow> outcome" where
  "handleImageLabeled payload s =
     (case session s of
        None \<Rightarrow> Thrown TypeError s
      | Some ses \<Rightarrow>
          Done (updateChangeCount
            (case find_image s (images ses) (lp_image_id payload) of
               None \<Rightarrow> s
             | Some r \<Rightarrow>
                 s\<lparr>heap := (heap s)(r := (heap s r)
                      \<lparr>label := lp_class_index payload,
                       class_name := lp_class_name payload,
                       marked_for_deletion := False\<rparr>)\<rparr>)))"

definition handleImageDeleted :: "string \<Rightarrow> SwiftLabelApp \<Rightarrow> outcome" where
  "handleImageDeleted imageId s =
     (case session s of
        None \<Rightarrow> Thrown TypeError s
      | Some ses \<Rightarrow>
          Done (updateChangeCount
            (case find_image s (images ses) imageId of
               None \<Rightarrow> s
             | Some r \<Rightarrow>
                 s\<lparr>heap := (heap s)(r := (heap s r)
                      \<lparr>label := None,
                       class_name := JNull,
                       marked_for_deletion := True\<rparr>)\<rparr>)))"

text \<open>
  \<open>handleStateUpdate\<close>: the payload's image is a new object; it replaces the list element
  with the same identifier, if there is one, and becomes the current image.
\<close>

definition handleStateUpdate :: "StateUpdatePayload \<Rightarrow> SwiftLabelApp \<Rightarrow> outcome" where
  "handleStateUpdate payload s =
     (case session s of
        None \<Rightarrow> Thrown TypeError s
      | Some ses \<Rightarrow>
          (let ses1 = ses\<lparr>current_index := su_current_index payload\<rparr>;
               s1 = s\<lparr>session := Some ses1\<rparr>
           in prefetchImages
                (updateUI
                  (case su_current_image payload of
                     None \<Rightarrow> s1
                   | Some img \<Rightarrow>
                       (let r = heap_next s1;
                            imgs' =
                              (case findIndex (\<lambda>x. img_id (heap s1 x) = img_id img) (images ses1) of
                                 None \<Rightarrow> images ses1
                               | Some i \<Rightarrow> (images ses1)[nat i := r])
                        in s1\<lparr>heap := (heap s1)(r := img),
                              heap_next := r + 1,
                              session := Some (ses1\<lparr>images := imgs'\<rparr>),
                              currentImage := Some r\<rparr>)))))"

definition handleUndoCompleted :: "UndoPayload \<Rightarrow> SwiftLabelApp \<Rightarrow> outcome" where
  "handleUndoCompleted payload s =
     (case session s of
        None \<Rightarrow> Thrown TypeError s
      | Some ses \<Rightarrow>
          (let s1 =
                 (case find_image s (images ses) (up_image_id payload) of
                    None \<Rightarrow> s
                  | Some r \<Rightarrow>
                      (case up_restored_state payload of
                         None \<Rightarrow> s
                       | Some rs \<Rightarrow>
                           s\<lparr>heap := (heap s)(r := (heap s r)
                                \<lparr>label := rs_label rs,
                                 class_name := rs_class_name rs,
                                 marked_for_deletion := rs_marked_for_deletion rs\<rparr>)\<rparr>))
           in andThen
                (case findIndex (\<lambda>x. img_id (heap s1 x) = up_image_id payload) (images ses) of
                   None \<Rightarrow> Done s1
                 | Some i \<Rightarrow> navigateToIndex i s1) (\<lambda>s2.
                Done (updateChangeCount
                        (updateUI
                          (showToast (TUndid (up_undone_action payload) (up_image_id payload))
                             Info s2))))))"

section \<open>Overlays and commit\<close>

definition closeOverlay :: "SwiftLabelApp \<Rightarrow> SwiftLabelApp" where
  "closeOverlay s = (if activeOverlay s = None then s else s\<lparr>activeOverlay := None\<rparr>)"

definition openOverlay :: "overlay \<Rightarrow> SwiftLabelApp \<Rightarrow> SwiftLabelApp" where
  "openOverlay overlayName s = (closeOverlay s)\<lparr>activeOverlay := Some overlayName\<rparr>"

definition toggleHelp :: "SwiftLabelApp \<Rightarrow> SwiftLabelApp" where
  "toggleHelp s = (if activeOverlay s = Some Help then closeOverlay s else openOverlay Help s)"

text \<open>
  The \<open>async\<close> functions with an \<open>await\<close> are split at it: the part before the request,
  and the part that runs when the request has resolved or rejected.
\<close>

definition toggleStats :: "SwiftLabelApp \<Rightarrow> SwiftLabelApp" where
  "toggleStats s =
     (if activeOverlay s = Some Stats then closeOverlay s else emit (ApiCall GetStats) s)"

definition toggleStats_resumed :: "SwiftLabelApp \<Rightarrow> SwiftLabelApp" where
  "toggleStats_resumed s = openOverlay Stats s"

definition showCommitModal :: "SwiftLabelApp \<Rightarrow> SwiftLabelApp" where
  "showCommitModal s = emit (ApiCall GetPreview) s"

text \<open>After \<open>await this.getCommitPreview()\<close>: \<open>None\<close> is a rejected request.\<close>

definition showCommitModal_resumed :: "PreviewSummary option \<Rightarrow> SwiftLabelApp \<Rightarrow> SwiftLabelApp" where
  "showCommitModal_resumed response s =
     (case response of
        None \<Rightarrow> showToast TPreviewFailed Err s
      | Some preview \<Rightarrow>
          (let s1 = s\<lparr>commitPreview := Some preview\<rparr>
           in if total_changes preview = 0 then showToast TNoChanges Info s1
              else openOverlay Commit s1))"

definition executeCommit :: "SwiftLabelApp \<Rightarrow> SwiftLabelApp" where
  "executeCommit s = emit (ApiCall PostCommit) s"

definition confirmCommit :: "SwiftLabelApp \<Rightarrow> SwiftLabelApp" where
  "confirmCommit s =
     (if activeOverlay s \<noteq> Some Commit then s
      else executeCommit (showToast TCommitting Info s))"

text \<open>After \<open>await this.executeCommit()\<close>: \<open>Some m\<close> is a rejection with message \<open>m\<close>.\<close>

definition confirmCommit_resumed :: "string option \<Rightarrow> SwiftLabelApp \<Rightarrow> SwiftLabelApp" where
  "confirmCommit_resumed failure s =
     (case failure of
        None \<Rightarrow> s
      | Some m \<Rightarrow> closeOverlay (showToast (TCommitFailed m) Err s))"

text \<open>\<open>handleChangesCommitted\<close>: starts \<open>loadSession\<close>, shows the result, closes the overlay.\<close>

definition handleChangesCommitted :: "CommitPayload \<Rightarrow> SwiftLabelApp \<Rightarrow> SwiftLabelApp" where
  "handleChangesCommitted payload s =
     closeOverlay
       (showToast (TCommitted (cp_moves_count payload) (cp_deletes_count payload))
          (if length (cp_errors payload) > 0 then Warning else Success)
          (emit (ApiCall GetSession) s))"

definition handleServerError :: "jstring \<Rightarrow> SwiftLabelApp \<Rightarrow> SwiftLabelApp" where
  "handleServerError message s =
     showToast
       (TServerError (case message of
                        JString m \<Rightarrow> if m = [] then ''An error occurred'' else m
                      | _ \<Rightarrow> ''An error occurred''))
       Err s"

section \<open>WebSocket connection\<close>

definition showConnectionStatus :: "SwiftLabelApp \<Rightarrow> SwiftLabelApp" where
  "showConnectionStatus s = s\<lparr>connectionStatusHidden := False\<rparr>"

definition hideConnectionStatus :: "SwiftLabelApp \<Rightarrow> SwiftLabelApp" where
  "hideConnectionStatus s = s\<lparr>connectionStatusHidden := True\<rparr>"

definition scheduleReconnect :: "SwiftLabelApp \<Rightarrow> SwiftLabelApp" where
  "scheduleReconnect s =
     (let delays = WS_RECONNECT_DELAYS;
          delay = delays ! min (wsReconnectAttempt s) (length delays - 1);
          (t, s1) = setTimeout ReconnectCb delay (showConnectionStatus s)
      in s1\<lparr>wsReconnectTimeout := Some t\<rparr>)"

text \<open>
  \<open>connectWebSocket\<close>; \<open>ctor_ok\<close> tells whether \<open>new WebSocket(...)\<close> returns (the
  \<open>catch\<close> branch schedules a reconnection at once when it throws).
\<close>

definition connectWebSocket :: "bool \<Rightarrow> SwiftLabelApp \<Rightarrow> SwiftLabelApp" where
  "connectWebSocket ctor_ok s =
     (let s1 = (if truthy_handle (wsReconnectTimeout s)
                then (clearTimeout (wsReconnectTimeout s) s)\<lparr>wsReconnectTimeout := None\<rparr>
                else s)
      in if ctor_ok then emit WsConnect (s1\<lparr>ws := Some CONNECTING\<rparr>)
         else scheduleReconnect s1)"

text \<open>The callback of the reconnection timer.\<close>

definition reconnect_callback :: "bool \<Rightarrow> SwiftLabelApp \<Rightarrow> SwiftLabelApp" where
  "reconnect_callback ctor_ok s =
     connectWebSocket ctor_ok (s\<lparr>wsReconnectAttempt := wsReconnectAttempt s + 1\<rparr>)"

definition stopHeartbeat :: "SwiftLabelApp \<Rightarrow> SwiftLabelApp" where
  "stopHeartbeat s =
     (if truthy_handle (wsHeartbeatInterval s)
      then (clearInterval (wsHeartbeatInterval s) s)\<lparr>wsHeartbeatInterval := None\<rparr>
      else s)"

definition startHeartbeat :: "SwiftLabelApp \<Rightarrow> SwiftLabelApp" where
  "startHeartbeat s =
     (let (t, s1) = setInterval HeartbeatCb WS_HEARTBEAT_INTERVAL (stopHeartbeat s)
      in s1\<lparr>wsHeartbeatInterval := Some t\<rparr>)"

definition heartbeat_callback :: "SwiftLabelApp \<Rightarrow> SwiftLabelApp" where
  "heartbeat_callback s = (if ws s = Some OPEN then sendWebSocketMessage MsgSync s else s)"

definition ws_onopen :: "SwiftLabelApp \<Rightarrow> SwiftLabelApp" where
  "ws_onopen s =
     sendWebSocketMessage MsgSync
       (startHeartbeat (hideConnectionStatus (s\<lparr>wsReconnectAttempt := 0\<rparr>)))"

definition ws_onclose :: "SwiftLabelApp \<Rightarrow> SwiftLabelApp" where
  "ws_onclose s = scheduleReconnect (stopHeartbeat s)"

text \<open>Messages of the server; \<open>Malformed\<close> is a frame that \<open>JSON.parse\<close> rejects.\<close>

datatype server_msg =
    StateUpdate StateUpdatePayload
  | ImageLabeled LabeledPayload
  | ImageDeleted string
  | UndoCompleted UndoPayload
  | ChangesCommitted CommitPayload
  | ServerError jstring
  | UnknownType string
  | Malformed

text \<open>
  \<open>handleWebSocketMessage\<close> wraps the dispatch in \<open>try/catch\<close>: an exception is logged,
  and the state stays as it was at the throw.
\<close>

definition handleWebSocketMessage :: "server_msg \<Rightarrow> SwiftLabelApp \<Rightarrow> SwiftLabelApp" where
  "handleWebSocketMessage message s =
     state_of
       (case message of
          StateUpdate payload \<Rightarrow> handleStateUpdate payload s
        | ImageLabeled payload \<Rightarrow> handleImageLabeled payload s
        | ImageDeleted imageId \<Rightarrow> handleImageDeleted imageId s
        | UndoCompleted payload \<Rightarrow> handleUndoCompleted payload s
        | ChangesCommitted payload \<Rightarrow> Done (handleChangesCommitted payload s)
        | ServerError m \<Rightarrow> Done (handleServerError m s)
        | UnknownType t \<Rightarrow> Done s
        | Malformed \<Rightarrow> Thrown SyntaxError s)"

section \<open>Folder navigation\<close>

text \<open>\<open>navigateToFolder\<close> up to its first \<open>await\<close>.\<close>

definition navigateToFolder :: "string \<Rightarrow> SwiftLabelApp \<Rightarrow> SwiftLabelApp" where
  "navigateToFolder folderPath s = emit (ApiCall (PostNavigateFolder folderPath)) s"

definition current_folder_index :: "SwiftLabelApp \<Rightarrow> int" where
  "current_folder_index s =
     (case findIndex (\<lambda>f. path f = currentFolder s) (subfolders s) of
        None \<Rightarrow> - 1
      | Some i \<Rightarrow> i)"

definition navigateToNextFolder :: "SwiftLabelApp \<Rightarrow> outcome" where
  "navigateToNextFolder s =
     (if length (subfolders s) = 0 then Done s
      else
        (let nextIdx = (current_folder_index s + 1) mod int (length (subfolders s))
         in case js_index (subfolders s) nextIdx of
              None \<Rightarrow> Thrown TypeError s
            | Some f \<Rightarrow> Done (navigateToFolder (path f) s)))"

definition navigateToPrevFolder :: "SwiftLabelApp \<Rightarrow> outcome" where
  "navigateToPrevFolder s =
     (if length (subfolders s) = 0 then Done s
      else
        (let currentIdx = current_folder_index s;
             prevIdx = (if currentIdx \<le> 0 then int (length (subfolders s)) - 1
                        else currentIdx - 1)
         in case js_index (subfolders s) prevIdx of
              None \<Rightarrow> Thrown TypeError s
            | Some f \<Rightarrow> Done (navigateToFolder (path f) s)))"

text \<open>
  \<open>currentFolder.split('/').slice(0, -1).join('/')\<close> is the part of the path before its
  last slash, and the empty string when there is none.
\<close>

definition navigateToParentFolder :: "SwiftLabelApp \<Rightarrow> SwiftLabelApp" where
  "navigateToParentFolder s =
     (if currentFolder s = [] then s
      else navigateToFolder (parent_folder (currentFolder s)) s)"

section \<open>Keyboard\<close>

record KeyboardEvent =
  target_tagName :: string
  key :: string
  shiftKey :: bool

definition handleClassKey :: "int \<Rightarrow> SwiftLabelApp \<Rightarrow> outcome" where
  "handleClassKey keyNumber s =
     (case session s of
        None \<Rightarrow> Thrown TypeError s
      | Some ses \<Rightarrow>
          (let classIndex =
                 (if keyNumber = 0 then min 9 (int (length (classes ses)) - 1)
                  else keyNumber - 1)
           in if classIndex \<ge> int (length (classes ses))
              then Done (showToast (TClassNotDefined (classIndex + 1)) Warning s)
              else not_awaited (labelImage classIndex s)))"

definition handleGKey :: "SwiftLabelApp \<Rightarrow> outcome" where
  "handleGKey s =
     (if lastKey s = Some ''g''
      then navigateToFirstInFolder ((clearTimeout (keyComboTimeout s) s)\<lparr>lastKey := None\<rparr>)
      else
        (let (t, s1) = setTimeout KeyComboCb DOUBLE_KEY_TIMEOUT (s\<lparr>lastKey := Some ''g''\<rparr>)
         in Done (s1\<lparr>keyComboTimeout := Some t\<rparr>)))"

text \<open>The callback of the combo timer.\<close>

definition keycombo_callback :: "SwiftLabelApp \<Rightarrow> SwiftLabelApp" where
  "keycombo_callback s = s\<lparr>lastKey := None\<rparr>"

definition applyFilter :: "int \<Rightarrow> SwiftLabelApp \<Rightarrow> outcome" where
  "applyFilter classIndex s =
     (if classIndex = 0 then Done (showToast TFilterCleared Info s)
      else
        (case session s of
           None \<Rightarrow> Thrown TypeError s
         | Some ses \<Rightarrow>
             (case class_at (classes ses) (classIndex - 1) of
                JString className \<Rightarrow>
                  if className = [] then Done s
                  else Done (showToast (TFilterShowing className) Info s)
              | _ \<Rightarrow> Done s)))"

text \<open>
  The value of \<open>parseInt(key, 10)\<close> for the keys \<open>'0'\<close> to \<open>'9'\<close>; a keyboard event's
  \<open>key\<close> is a single character or a key name, and no key name starts with a digit.
\<close>

definition digit_of_key :: "string \<Rightarrow> int option" where
  "digit_of_key k =
     (if k = ''0'' then Some 0 else if k = ''1'' then Some 1 else if k = ''2'' then Some 2
      else if k = ''3'' then Some 3 else if k = ''4'' then Some 4 else if k = ''5'' then Some 5
      else if k = ''6'' then Some 6 else if k = ''7'' then Some 7 else if k = ''8'' then Some 8
      else if k = ''9'' then Some 9 else None)"

text \<open>
  The \<open>switch\<close> of \<open>handleKeyDown\<close>; the cases \<open>'1'\<close> to \<open>'9'\<close> and \<open>'0'\<close> both call
  \<open>handleClassKey\<close> with the number of the key.
\<close>

definition main_shortcut :: "KeyboardEvent \<Rightarrow> SwiftLabelApp \<Rightarrow> outcome" where
  "main_shortcut ev s =
     (let k = key ev in
      if digit_of_key k \<noteq> None then
        (case digit_of_key k of None \<Rightarrow> Done s | Some n \<Rightarrow> handleClassKey n s)
      else if k = ''d'' \<or> k = ''D'' then not_awaited (deleteImage s)
      else if k = ''u'' \<or> k = ''U'' then Done (undoAction s)
      else if k = ''ArrowLeft'' \<or> k = ''h'' \<or> k = ''H'' then navigatePrevious s
      else if k = ''ArrowRight'' \<or> k = ''l'' \<or> k = ''L'' then navigateNext s
      else if k = ''j'' \<or> k = ''J'' then navigateNext s
      else if k = ''k'' \<or> k = ''K'' then navigatePrevious s
      else if k = ''g'' then handleGKey s
      else if k = ''G'' then navigateToLastInFolder s
      else if k = ''n'' \<or> k = ''N'' then navigateToNextUnlabeled s
      else if k = ''Enter'' then Done (showCommitModal s)
      else if k = ''?'' then Done (toggleHelp s)
      else if k = ''s'' \<or> k = ''S'' then Done (toggleStats s)
      else if k = ''f'' \<or> k = ''F'' then Done (showToast TFilterMode Info (s\<lparr>filterMode := True\<rparr>))
      else if k = ''Tab'' then
        (if hasFolders s
         then (if shiftKey ev then navigateToPrevFolder s else navigateToNextFolder s)
         else Done s)
      else if k = ''Backspace'' then
        (if currentFolder s \<noteq> [] then Done (navigateToParentFolder s) else Done s)
      else Done s)"

definition handleKeyDown :: "KeyboardEvent \<Rightarrow> SwiftLabelApp \<Rightarrow> outcome" where
  "handleKeyDown ev s =
     (if target_tagName ev = ''INPUT'' \<or> target_tagName ev = ''TEXTAREA'' then Done s
      else if key ev = ''Escape'' \<and> activeOverlay s \<noteq> None then Done (closeOverlay s)
      else if activeOverlay s = Some Commit then
        (if key ev = ''Enter'' then Done (confirmCommit s) else Done s)
      else if activeOverlay s = Some Help \<or> activeOverlay s = Some Stats
        then Done (closeOverlay s)
      else if filterMode s then
        andThen (case digit_of_key (key ev) of
                   None \<Rightarrow> Done s
                 | Some n \<Rightarrow> applyFilter n s)
          (\<lambda>s1. Done (s1\<lparr>filterMode := False\<rparr>))
      else main_shortcut ev s)"

section \<open>Loading the session and the folder list\<close>

record SessionPayload =
  sp_version :: string
  sp_working_directory :: string
  sp_classes :: "string list"
  sp_images :: "ImageInfo list"
  sp_current_index :: int

record SubfoldersPayload =
  sf_subfolders :: "Subfolder list"
  sf_has_subfolders :: bool
  sf_current_folder :: string

text \<open>Every image of a parsed response is a new object.\<close>

fun alloc_images ::
  "ImageInfo list \<Rightarrow> (ref \<Rightarrow> ImageInfo) \<Rightarrow> ref \<Rightarrow> ref list \<times> (ref \<Rightarrow> ImageInfo) \<times> ref" where
  "alloc_images [] h n = ([], h, n)"
| "alloc_images (x # xs) h n =
     (case alloc_images xs (h(n := x)) (n + 1) of (rs, h', n') \<Rightarrow> (n # rs, h', n'))"

text \<open>
  \<open>loadSession\<close> after its \<open>await\<close>: the session is replaced; the current image is
  re-read only when the new list is not empty (and is \<open>undefined\<close> when the index
  points outside it).
\<close>

definition loadSession_resumed :: "SessionPayload \<Rightarrow> SwiftLabelApp \<Rightarrow> SwiftLabelApp" where
  "loadSession_resumed payload s =
     (case alloc_images (sp_images payload) (heap s) (heap_next s) of
        (refs, h, n) \<Rightarrow>
          (let s1 = s\<lparr>heap := h, heap_next := n,
                       session := Some \<lparr>version = sp_version payload,
                                         working_directory = sp_working_directory payload,
                                         classes = sp_classes payload,
                                         images = refs,
                                         current_index = sp_current_index payload\<rparr>\<rparr>
           in if length refs > 0
              then s1\<lparr>currentImage := js_index refs (sp_current_index payload)\<rparr>
              else s1))"

definition loadSubfolders :: "SwiftLabelApp \<Rightarrow> SwiftLabelApp" where
  "loadSubfolders s = emit (ApiCall GetSubfolders) s"

definition loadSubfolders_resumed :: "SubfoldersPayload option \<Rightarrow> SwiftLabelApp \<Rightarrow> SwiftLabelApp" where
  "loadSubfolders_resumed response s =
     (case response of
        None \<Rightarrow> s
      | Some d \<Rightarrow> s\<lparr>subfolders := sf_subfolders d,
                      hasFolders := sf_has_subfolders d,
                      currentFolder := sf_current_folder d\<rparr>)"

definition updateChangeCount_resumed :: "(int \<times> bool) option \<Rightarrow> SwiftLabelApp \<Rightarrow> SwiftLabelApp" where
  "updateChangeCount_resumed response s =
     (case response of
        None \<Rightarrow> s
      | Some d \<Rightarrow> s\<lparr>userChangesCount := fst d, hasChanges := snd d\<rparr>)"

text \<open>\<open>updateFolderContext\<close> after the POST: a rejection is caught and logged.\<close>

definition updateFolderContext_posted :: "bool \<Rightarrow> SwiftLabelApp \<Rightarrow> SwiftLabelApp" where
  "updateFolderContext_posted ok s = (if ok then loadSubfolders s else s)"

text \<open>The \<open>then\<close> callback of \<open>handleChangesCommitted\<close>; a rejected reload skips it.\<close>

definition handleChangesCommitted_reloaded ::
  "SessionPayload option \<Rightarrow> SwiftLabelApp \<Rightarrow> SwiftLabelApp" where
  "handleChangesCommitted_reloaded response s =
     (case response of
        None \<Rightarrow> s
      | Some payload \<Rightarrow> updateChangeCount (updateUI (loadSession_resumed payload s)))"

text \<open>
  \<open>navigateToFolder\<close> after each of its three \<open>await\<close>s; the whole body is in a
  \<open>try/catch\<close> that logs.
\<close>

definition navigateToFolder_posted ::
  "(bool \<times> string) option \<Rightarrow> SwiftLabelApp \<Rightarrow> SwiftLabelApp" where
  "navigateToFolder_posted response s =
     (case response of
        None \<Rightarrow> s
      | Some resp \<Rightarrow>
          if fst resp then emit (ApiCall GetSession) (s\<lparr>currentFolder := snd resp\<rparr>) else s)"

definition navigateToFolder_session ::
  "SessionPayload option \<Rightarrow> SwiftLabelApp \<Rightarrow> SwiftLabelApp" where
  "navigateToFolder_session response s =
     (case response of
        None \<Rightarrow> s
      | Some payload \<Rightarrow> loadSubfolders (loadSession_resumed payload s))"

definition startsWith :: "string \<Rightarrow> string \<Rightarrow> bool" where
  "startsWith s p = (take (length p) s = p)"

definition navigateToFolder_finish :: "string \<Rightarrow> SwiftLabelApp \<Rightarrow> outcome" where
  "navigateToFolder_finish folderPath s =
     (case session s of
        None \<Rightarrow> Thrown TypeError s
      | Some ses \<Rightarrow>
          (let targetPrefix = (if folderPath \<noteq> [] then folderPath @ ''/'' else []);
               firstImageIndex =
                 findIndex (\<lambda>r. folderPath = [] \<or> startsWith (img_id (heap s r)) targetPrefix)
                   (images ses)
           in prefetchImages
                (updateUI
                  (case firstImageIndex of
                     None \<Rightarrow> s
                   | Some i \<Rightarrow> s\<lparr>session := Some (ses\<lparr>current_index := i\<rparr>),
                                   currentImage := js_index (images ses) i\<rparr>))))"

definition navigateToFolder_subfolders ::
  "string \<Rightarrow> SubfoldersPayload option \<Rightarrow> SwiftLabelApp \<Rightarrow> SwiftLabelApp" where
  "navigateToFolder_subfolders folderPath response s =
     state_of (navigateToFolder_finish folderPath (loadSubfolders_resumed response s))"

section \<open>The event loop\<close>

text \<open>
  The field initialisers of the constructor. The indicator's initial \<open>hidden\<close> attribute
  comes from the page and is a parameter; timer identifiers are positive.
\<close>

definition default_image :: ImageInfo where
  "default_image =
     \<lparr>img_id = [], filename = [], label = None, class_name = JNull,
      marked_for_deletion = False\<rparr>"

definition constructor :: "bool \<Rightarrow> SwiftLabelApp" where
  "constructor hidden0 =
     \<lparr>heap = (\<lambda>r. default_image), heap_next = 0, session = None, currentImage = None,
      imageCache = [], prefetchingImages = {}, ws = None, wsReconnectAttempt = 0,
      wsReconnectTimeout = None, wsHeartbeatInterval = None, activeOverlay = None,
      commitPreview = None, filterMode = False, lastKey = None, keyComboTimeout = None,
      currentFolder = [], subfolders = [], hasFolders = False, userChangesCount = 0,
      hasChanges = False, connectionStatusHidden = hidden0, timers = [], timer_next = 1,
      loading = [], displayLoading = None, effects = []\<rparr>"

text \<open>
  A timer that fires runs its callback; a timeout is then gone, the heartbeat interval
  stays. The flag is passed on to \<open>connectWebSocket\<close>.
\<close>

definition fire_timer :: "nat \<Rightarrow> bool \<Rightarrow> SwiftLabelApp \<Rightarrow> SwiftLabelApp" where
  "fire_timer t ctor_ok s =
     (case List.find (\<lambda>p. fst p = t) (timers s) of
        None \<Rightarrow> s
      | Some p \<Rightarrow>
          (case fst (snd p) of
             HeartbeatCb \<Rightarrow> heartbeat_callback s
           | KeyComboCb \<Rightarrow>
               keycombo_callback (s\<lparr>timers := filter (\<lambda>q. fst q \<noteq> t) (timers s)\<rparr>)
           | ReconnectCb \<Rightarrow>
               reconnect_callback ctor_ok
                 (s\<lparr>timers := filter (\<lambda>q. fst q \<noteq> t) (timers s)\<rparr>)))"

text \<open>
  What can happen to the running application: user input, socket events, timers, and
  the completion of the requests and image loads it has started. When the load of the
  visible image ends, the \<open>onload\<close> handler, if one is set, changes CSS classes only. An exception that
  escapes a handler ends the handler; the state stays as it was at the throw.
\<close>

datatype event =
    KeyDown KeyboardEvent
  | ClickClassButton int
  | ClickDelete
  | ClickUndo
  | ClickCommit
  | ClickConfirmCommit
  | ClickCancelCommit
  | ClickBackdrop
  | ClickFolder string
  | WsOpened
  | WsMessage server_msg
  | WsClosed
  | WsErrored
  | TimerFired nat bool
  | ImgLoaded string
  | ImgErrored string
  | DisplayLoaded
  | DisplayErrored
  | PreviewResolved "PreviewSummary option"
  | CommitResolved "string option"
  | StatsResolved bool
  | ChangeCountResolved "(int \<times> bool) option"
  | ReloadResolved "SessionPayload option"
  | FolderContextPosted bool
  | SubfoldersResolved "SubfoldersPayload option"
  | FolderNavPosted "(bool \<times> string) option"
  | FolderNavSession "SessionPayload option"
  | FolderNavSubfolders string "SubfoldersPayload option"

fun handle :: "event \<Rightarrow> SwiftLabelApp \<Rightarrow> SwiftLabelApp" where
  "handle (KeyDown ev) s = state_of (handleKeyDown ev s)"
| "handle (ClickClassButton i) s = state_of (labelImage i s)"
| "handle ClickDelete s = state_of (deleteImage s)"
| "handle ClickUndo s = undoAction s"
| "handle ClickCommit s = showCommitModal s"
| "handle ClickConfirmCommit s = confirmCommit s"
| "handle ClickCancelCommit s = closeOverlay s"
| "handle ClickBackdrop s = closeOverlay s"
| "handle (ClickFolder p) s = navigateToFolder p s"
| "handle WsOpened s = (if ws s = None then s else ws_onopen (s\<lparr>ws := Some OPEN\<rparr>))"
| "handle (WsMessage m) s = (if ws s = None then s else handleWebSocketMessage m s)"
| "handle WsClosed s = (if ws s = None then s else ws_onclose (s\<lparr>ws := Some CLOSED\<rparr>))"
| "handle WsErrored s = s"
| "handle (TimerFired t ctor_ok) s = fire_timer t ctor_ok s"
| "handle (ImgLoaded i) s =
     (if i \<in> set (loading s) then img_onload i (s\<lparr>loading := remove1 i (loading s)\<rparr>) else s)"
| "handle (ImgErrored i) s =
     (if i \<in> set (loading s) then img_onerror i (s\<lparr>loading := remove1 i (loading s)\<rparr>) else s)"
| "handle DisplayLoaded s = s\<lparr>displayLoading := None\<rparr>"
| "handle DisplayErrored s = s\<lparr>displayLoading := None\<rparr>"
| "handle (PreviewResolved r) s = showCommitModal_resumed r s"
| "handle (CommitResolved r) s = confirmCommit_resumed r s"
| "handle (StatsResolved ok) s = (if ok then toggleStats_resumed s else s)"
| "handle (ChangeCountResolved r) s = updateChangeCount_resumed r s"
| "handle (ReloadResolved r) s = handleChangesCommitted_reloaded r s"
| "handle (FolderContextPosted ok) s = updateFolderContext_posted ok s"
| "handle (SubfoldersResolved r) s = loadSubfolders_resumed r s"
| "handle (FolderNavPosted r) s = navigateToFolder_posted r s"
| "handle (FolderNavSession r) s = navigateToFolder_session r s"
| "handle (FolderNavSubfolders p r) s = navigateToFolder_subfolders p r s"

fun run :: "event list \<Rightarrow> SwiftLabelApp \<Rightarrow> SwiftLabelApp" where
  "run [] s = s"
| "run (e # es) s = run es (handle e s)"

section \<open>Definitions used to state the properties\<close>

text \<open>
  The identifiers that a cursor move asks to prefetch, in the order of the calls: the
  next three images after the cursor, as far as the list goes, then the image right
  before the cursor when the cursor is positive.
\<close>

definition prefetch_ids :: "SwiftLabelApp \<Rightarrow> SessionState \<Rightarrow> string list" where
  "prefetch_ids s ses =
     map (\<lambda>r. img_id (heap s r))
       (take 3 (drop (nat (current_index ses) + 1) (images ses)) @
        (if 0 < current_index ses then [images ses ! nat (current_index ses - 1)] else []))"

text \<open>
  A small running replica: three images in the root folder, two classes, the cursor
  on the first image and the socket open.
\<close>

definition example_payload :: SessionPayload where
  "example_payload =
     \<lparr>sp_version = ''1.0'', sp_working_directory = ''/data'',
      sp_classes = [''cat'', ''dog''],
      sp_images =
        [\<lparr>img_id = ''a.jpg'', filename = ''a.jpg'', label = None, class_name = JNull,
          marked_for_deletion = False\<rparr>,
         \<lparr>img_id = ''b.jpg'', filename = ''b.jpg'', label = None, class_name = JNull,
          marked_for_deletion = False\<rparr>,
         \<lparr>img_id = ''c.jpg'', filename = ''c.jpg'', label = None, class_name = JNull,
          marked_for_deletion = False\<rparr>],
      sp_current_index = 0\<rparr>"

definition example_session :: SessionState where
  "example_session =
     \<lparr>version = ''1.0'', working_directory = ''/data'', classes = [''cat'', ''dog''],
      images = [0, 1, 2], current_index = 0\<rparr>"

definition example_app :: SwiftLabelApp where
  "example_app = (loadSession_resumed example_payload (constructor True))\<lparr>ws := Some OPEN\<rparr>"


text \<open>The local mutations of \<open>labelImage\<close> and \<open>deleteImage\<close>, before anything else runs.\<close>

definition label_locally :: "int \<Rightarrow> ref \<Rightarrow> SessionState \<Rightarrow> SwiftLabelApp \<Rightarrow> SwiftLabelApp" where
  "label_locally c cur ses s =
     s\<lparr>heap := (heap s)(cur := (heap s cur)
          \<lparr>label := Some c, class_name := class_at (classes ses) c,
           marked_for_deletion := False\<rparr>)\<rparr>"

definition delete_locally :: "ref \<Rightarrow> SwiftLabelApp \<Rightarrow> SwiftLabelApp" where
  "delete_locally cur s =
     s\<lparr>heap := (heap s)(cur := (heap s cur)
          \<lparr>label := None, class_name := JNull, marked_for_deletion := True\<rparr>)\<rparr>"

text \<open>No image of the session is both labelled and marked for deletion.\<close>

definition label_delete_exclusive :: "SwiftLabelApp \<Rightarrow> bool" where
  "label_delete_exclusive s =
     (case session s of
        None \<Rightarrow> True
      | Some ses \<Rightarrow>
          (\<forall>r \<in> set (images ses).
             \<not> (label (heap s r) \<noteq> None \<and> marked_for_deletion (heap s r))))"

text \<open>Every label of the session's images is \<open>null\<close> or an index into the class list.\<close>

definition valid_class_index :: "SessionState \<Rightarrow> int option \<Rightarrow> bool" where
  "valid_class_index ses l =
     (case l of None \<Rightarrow> True | Some c \<Rightarrow> 0 \<le> c \<and> c < int (length (classes ses)))"

definition labels_valid :: "SwiftLabelApp \<Rightarrow> bool" where
  "labels_valid s =
     (case session s of
        None \<Rightarrow> True
      | Some ses \<Rightarrow> (\<forall>r \<in> set (images ses). valid_class_index ses (label (heap s r))))"

text \<open>The example replica with the cursor on its last image and no open socket.\<close>

definition offline_last_app :: SwiftLabelApp where
  "offline_last_app =
     example_app\<lparr>session := Some (example_session\<lparr>current_index := 2\<rparr>),
                  currentImage := Some 2, ws := Some CLOSED\<rparr>"

text \<open>A broadcast that labels the example's first image with a class the session lacks.\<close>

definition stray_label_payload :: LabeledPayload where
  "stray_label_payload =
     \<lparr>lp_image_id = ''a.jpg'', lp_class_index = Some 7, lp_class_name = JString ''owl''\<rparr>"

definition dog_label_payload :: LabeledPayload where
  "dog_label_payload =
     \<lparr>lp_image_id = ''b.jpg'', lp_class_index = Some 1, lp_class_name = JString ''dog''\<rparr>"


text \<open>A cache that has grown to eleven entries, and a replica whose image list is empty.\<close>

definition crowded_cache :: "(string \<times> HTMLImageElement) list" where
  "crowded_cache =
     [(''a.jpg'', Img ''a.jpg''), (''b.jpg'', Img ''b.jpg''), (''c.jpg'', Img ''c.jpg''),
      (''d.jpg'', Img ''d.jpg''), (''e.jpg'', Img ''e.jpg''), (''f.jpg'', Img ''f.jpg''),
      (''g.jpg'', Img ''g.jpg''), (''h.jpg'', Img ''h.jpg''), (''i.jpg'', Img ''i.jpg''),
      (''j.jpg'', Img ''j.jpg''), (''k.jpg'', Img ''k.jpg'')]"

definition emptied_app :: SwiftLabelApp where
  "emptied_app =
     (constructor True)
       \<lparr>session := Some \<lparr>version = ''1.0'', working_directory = ''/data'',
                          classes = [''cat'', ''dog''], images = [], current_index = 0\<rparr>,
        imageCache := crowded_cache\<rparr>"

text \<open>
  The prefetcher's bookkeeping agrees with the browser: the in-flight set holds exactly
  the identifiers with a load in progress, and no identifier is being loaded twice.
\<close>

definition inflight_inv :: "SwiftLabelApp \<Rightarrow> bool" where
  "inflight_inv s = (distinct (loading s) \<and> set (loading s) = prefetchingImages s)"

text \<open>The number of commit requests issued so far.\<close>

definition commit_requests :: "SwiftLabelApp \<Rightarrow> nat" where
  "commit_requests s = length (filter (\<lambda>e. e = ApiCall PostCommit) (effects s))"

text \<open>What most handlers leave alone: the overlay, the commit requests, the bookkeeping.\<close>

definition obs :: "SwiftLabelApp \<Rightarrow> overlay option \<times> nat \<times> bool" where
  "obs s = (activeOverlay s, commit_requests s, inflight_inv s)"

text \<open>The two ways to confirm a commit: the confirm button, and the Enter key.\<close>

fun is_confirm :: "event \<Rightarrow> bool" where
  "is_confirm ClickConfirmCommit = True"
| "is_confirm (KeyDown ev) = (key ev = ''Enter'')"
| "is_confirm e = False"

text \<open>A preview that reports at least one change has arrived.\<close>

fun is_nonempty_preview :: "event \<Rightarrow> bool" where
  "is_nonempty_preview (PreviewResolved (Some p)) = (total_changes p \<noteq> 0)"
| "is_nonempty_preview e = False"

text \<open>A key press outside any input field.\<close>

definition key_press :: "string \<Rightarrow> event" where
  "key_press k = KeyDown \<lparr>target_tagName = ''BODY'', key = k, shiftKey = False\<rparr>"

text \<open>The \<open>key\<close> of a keyboard event for the number key \<open>k\<close>, from 0 to 9.\<close>

definition number_key :: "int \<Rightarrow> string" where
  "number_key k =
     (if k = 0 then ''0'' else if k = 1 then ''1'' else if k = 2 then ''2''
      else if k = 3 then ''3'' else if k = 4 then ''4'' else if k = 5 then ''5''
      else if k = 6 then ''6'' else if k = 7 then ''7'' else if k = 8 then ''8''
      else ''9'')"

text \<open>
  One failed connection: the socket closes, and the reconnection timer that the close
  has scheduled fires and constructs the next socket.
\<close>

definition failed_round :: "SwiftLabelApp \<Rightarrow> SwiftLabelApp" where
  "failed_round s =
     (let s1 = handle WsClosed s
      in case wsReconnectTimeout s1 of
           None \<Rightarrow> s1
         | Some t \<Rightarrow> handle (TimerFired t True) s1)"

text \<open>Timer identifiers are positive and below the next one to be handed out.\<close>

definition timers_fresh :: "SwiftLabelApp \<Rightarrow> bool" where
  "timers_fresh s = (0 < timer_next s \<and> (\<forall>p \<in> set (timers s). fst p < timer_next s))"

text \<open>
  A step that issues no commit request, keeps the bookkeeping as it is, and does not
  open the commit overlay.
\<close>

definition tame :: "SwiftLabelApp \<Rightarrow> SwiftLabelApp \<Rightarrow> bool" where
  "tame s t =
     (snd (obs t) = snd (obs s) \<and> (fst (obs t) = Some Commit \<longrightarrow> fst (obs s) = Some Commit))"



text \<open>A preview that lists three pending changes, and one that lists none.\<close>

definition example_preview :: PreviewSummary where
  "example_preview =
     \<lparr>total_changes = 3, moves = [(''a.jpg'', ''cat/a.jpg''), (''b.jpg'', ''dog/b.jpg'')],
      deletes = [''c.jpg''], warnings = []\<rparr>"

definition empty_preview :: PreviewSummary where
  "empty_preview = \<lparr>total_changes = 0, moves = [], deletes = [], warnings = []\<rparr>"

text \<open>The example replica with the cursor on its last image.\<close>

definition example_at_last :: SwiftLabelApp where
  "example_at_last =
     example_app\<lparr>session := Some (example_session\<lparr>current_index := 2\<rparr>),
                  currentImage := Some 2\<rparr>"

section \<open>Basic facts about the primitives\<close>

text \<open>Showing the current image touches nothing but the load of the visible element.\<close>

lemma displayCurrentImage_fields [simp]:
  "heap (displayCurrentImage s) = heap s"
  "heap_next (displayCurrentImage s) = heap_next s"
  "session (displayCurrentImage s) = session s"
  "currentImage (displayCurrentImage s) = currentImage s"
  "imageCache (displayCurrentImage s) = imageCache s"
  "prefetchingImages (displayCurrentImage s) = prefetchingImages s"
  "ws (displayCurrentImage s) = ws s"
  "wsReconnectAttempt (displayCurrentImage s) = wsReconnectAttempt s"
  "wsReconnectTimeout (displayCurrentImage s) = wsReconnectTimeout s"
  "wsHeartbeatInterval (displayCurrentImage s) = wsHeartbeatInterval s"
  "activeOverlay (displayCurrentImage s) = activeOverlay s"
  "commitPreview (displayCurrentImage s) = commitPreview s"
  "filterMode (displayCurrentImage s) = filterMode s"
  "lastKey (displayCurrentImage s) = lastKey s"
  "keyComboTimeout (displayCurrentImage s) = keyComboTimeout s"
  "currentFolder (displayCurrentImage s) = currentFolder s"
  "subfolders (displayCurrentImage s) = subfolders s"
  "hasFolders (displayCurrentImage s) = hasFolders s"
  "userChangesCount (displayCurrentImage s) = userChangesCount s"
  "hasChanges (displayCurrentImage s) = hasChanges s"
  "connectionStatusHidden (displayCurrentImage s) = connectionStatusHidden s"
  "timers (displayCurrentImage s) = timers s"
  "timer_next (displayCurrentImage s) = timer_next s"
  "loading (displayCurrentImage s) = loading s"
  "effects (displayCurrentImage s) = effects s"
  by (simp_all add: displayCurrentImage_def Let_def split: option.splits)

lemma updateUI_fields [simp]:
  "heap (updateUI s) = heap s"
  "heap_next (updateUI s) = heap_next s"
  "session (updateUI s) = session s"
  "currentImage (updateUI s) = currentImage s"
  "imageCache (updateUI s) = imageCache s"
  "prefetchingImages (updateUI s) = prefetchingImages s"
  "ws (updateUI s) = ws s"
  "wsReconnectAttempt (updateUI s) = wsReconnectAttempt s"
  "wsReconnectTimeout (updateUI s) = wsReconnectTimeout s"
  "wsHeartbeatInterval (updateUI s) = wsHeartbeatInterval s"
  "activeOverlay (updateUI s) = activeOverlay s"
  "commitPreview (updateUI s) = commitPreview s"
  "filterMode (updateUI s) = filterMode s"
  "lastKey (updateUI s) = lastKey s"
  "keyComboTimeout (updateUI s) = keyComboTimeout s"
  "currentFolder (updateUI s) = currentFolder s"
  "subfolders (updateUI s) = subfolders s"
  "hasFolders (updateUI s) = hasFolders s"
  "userChangesCount (updateUI s) = userChangesCount s"
  "hasChanges (updateUI s) = hasChanges s"
  "connectionStatusHidden (updateUI s) = connectionStatusHidden s"
  "timers (updateUI s) = timers s"
  "timer_next (updateUI s) = timer_next s"
  "loading (updateUI s) = loading s"
  "effects (updateUI s) = effects s"
  by (simp_all add: updateUI_def)

lemma andThen_Done [simp]: "andThen r Done = r"
  by (cases r) simp_all

lemma state_of_andThen_Done:
  "state_of (andThen r (\<lambda>t. Done (f t))) = (if returns r then f (state_of r) else state_of r)"
  by (cases r) simp_all

lemma returns_Done_iff: "returns r \<longleftrightarrow> (\<exists>t. r = Done t)"
  by (cases r) simp_all

lemma js_index_Some_iff:
  "js_index xs i = Some x \<longleftrightarrow> 0 \<le> i \<and> i < int (length xs) \<and> x = xs ! nat i"
  by (auto simp: js_index_def)

lemma js_index_None_iff: "js_index xs i = None \<longleftrightarrow> i < 0 \<or> int (length xs) \<le> i"
  by (auto simp: js_index_def)

lemma prefetchImage_fields [simp]:
  "heap (prefetchImage i s) = heap s"
  "heap_next (prefetchImage i s) = heap_next s"
  "session (prefetchImage i s) = session s"
  "currentImage (prefetchImage i s) = currentImage s"
  "imageCache (prefetchImage i s) = imageCache s"
  "ws (prefetchImage i s) = ws s"
  "wsReconnectAttempt (prefetchImage i s) = wsReconnectAttempt s"
  "wsReconnectTimeout (prefetchImage i s) = wsReconnectTimeout s"
  "wsHeartbeatInterval (prefetchImage i s) = wsHeartbeatInterval s"
  "activeOverlay (prefetchImage i s) = activeOverlay s"
  "commitPreview (prefetchImage i s) = commitPreview s"
  "filterMode (prefetchImage i s) = filterMode s"
  "lastKey (prefetchImage i s) = lastKey s"
  "keyComboTimeout (prefetchImage i s) = keyComboTimeout s"
  "connectionStatusHidden (prefetchImage i s) = connectionStatusHidden s"
  "timers (prefetchImage i s) = timers s"
  "timer_next (prefetchImage i s) = timer_next s"
  by (simp_all add: prefetchImage_def start_image_load_def emit_def)

lemma fold_prefetchImage_fields [simp]:
  "heap (fold prefetchImage ids s) = heap s"
  "heap_next (fold prefetchImage ids s) = heap_next s"
  "session (fold prefetchImage ids s) = session s"
  "currentImage (fold prefetchImage ids s) = currentImage s"
  "imageCache (fold prefetchImage ids s) = imageCache s"
  "ws (fold prefetchImage ids s) = ws s"
  "wsReconnectAttempt (fold prefetchImage ids s) = wsReconnectAttempt s"
  "wsReconnectTimeout (fold prefetchImage ids s) = wsReconnectTimeout s"
  "wsHeartbeatInterval (fold prefetchImage ids s) = wsHeartbeatInterval s"
  "activeOverlay (fold prefetchImage ids s) = activeOverlay s"
  "commitPreview (fold prefetchImage ids s) = commitPreview s"
  "filterMode (fold prefetchImage ids s) = filterMode s"
  "lastKey (fold prefetchImage ids s) = lastKey s"
  "keyComboTimeout (fold prefetchImage ids s) = keyComboTimeout s"
  "connectionStatusHidden (fold prefetchImage ids s) = connectionStatusHidden s"
  "timers (fold prefetchImage ids s) = timers s"
  "timer_next (fold prefetchImage ids s) = timer_next s"
  by (induction ids arbitrary: s; simp)+

lemma cleanImageCache_fields [simp]:
  "heap (cleanImageCache s) = heap s"
  "heap_next (cleanImageCache s) = heap_next s"
  "session (cleanImageCache s) = session s"
  "currentImage (cleanImageCache s) = currentImage s"
  "prefetchingImages (cleanImageCache s) = prefetchingImages s"
  "ws (cleanImageCache s) = ws s"
  "wsReconnectAttempt (cleanImageCache s) = wsReconnectAttempt s"
  "wsReconnectTimeout (cleanImageCache s) = wsReconnectTimeout s"
  "wsHeartbeatInterval (cleanImageCache s) = wsHeartbeatInterval s"
  "activeOverlay (cleanImageCache s) = activeOverlay s"
  "commitPreview (cleanImageCache s) = commitPreview s"
  "filterMode (cleanImageCache s) = filterMode s"
  "lastKey (cleanImageCache s) = lastKey s"
  "keyComboTimeout (cleanImageCache s) = keyComboTimeout s"
  "connectionStatusHidden (cleanImageCache s) = connectionStatusHidden s"
  "timers (cleanImageCache s) = timers s"
  "timer_next (cleanImageCache s) = timer_next s"
  "loading (cleanImageCache s) = loading s"
  "effects (cleanImageCache s) = effects s"
  by (simp_all add: cleanImageCache_def)

text \<open>Whatever the loop does, it is a sequence of \<open>prefetchImage\<close> calls.\<close>

lemma prefetch_loop_is_fold:
  "\<exists>ids. state_of (prefetch_loop c i s) = fold prefetchImage ids s"
proof (induction c i s rule: prefetch_loop.induct)
  case (1 c i s)
  have stop: "state_of (prefetch_loop c i s) = s \<Longrightarrow> ?case"
  proof -
    assume "state_of (prefetch_loop c i s) = s"
    then have "state_of (prefetch_loop c i s) = fold prefetchImage [] s" by simp
    then show ?thesis by blast
  qed
  show ?case
  proof (cases "i \<le> PREFETCH_COUNT")
    case False
    then show ?thesis by (intro stop) (simp add: prefetch_loop.simps)
  next
    case le: True
    show ?thesis
    proof (cases "session s")
      case None
      with le show ?thesis by (intro stop) (simp add: prefetch_loop.simps)
    next
      case ses: (Some ses)
      show ?thesis
      proof (cases "c + i < int (length (images ses))")
        case False
        with le ses have "prefetch_loop c i s = prefetch_loop c (i + 1) s"
          by (simp add: prefetch_loop.simps [of c i s])
        with "1.IH"(2) [OF le ses refl False] show ?thesis by simp
      next
        case lt: True
        show ?thesis
        proof (cases "js_index (images ses) (c + i)")
          case None
          with le ses lt show ?thesis
            by (intro stop) (simp add: prefetch_loop.simps [of c i s])
        next
          case (Some r)
          with le ses lt
          have eq: "prefetch_loop c i s =
              prefetch_loop c (i + 1) (prefetchImage (img_id (heap s r)) s)"
            by (simp add: prefetch_loop.simps [of c i s])
          from "1.IH"(1) [OF le ses refl lt Some]
          obtain ids where
            "state_of (prefetch_loop c (i + 1) (prefetchImage (img_id (heap s r)) s)) =
               fold prefetchImage ids (prefetchImage (img_id (heap s r)) s)"
            by blast
          with eq have "state_of (prefetch_loop c i s) =
              fold prefetchImage (img_id (heap s r) # ids) s"
            by simp
          then show ?thesis by blast
        qed
      qed
    qed
  qed
qed

lemma prefetchImages_is_fold:
  "\<exists>ids. state_of (prefetchImages s) = fold prefetchImage ids s
       \<or> state_of (prefetchImages s) = cleanImageCache (fold prefetchImage ids s)"
proof (cases "session s")
  case None
  then have "state_of (prefetchImages s) = fold prefetchImage [] s"
    by (simp add: prefetchImages_def)
  then show ?thesis by blast
next
  case ses: (Some ses)
  show ?thesis
  proof (cases "length (images ses) = 0")
    case True
    with ses have "state_of (prefetchImages s) = fold prefetchImage [] s"
      by (simp add: prefetchImages_def)
    then show ?thesis by blast
  next
    case ne: False
    obtain ids where ids: "state_of (prefetch_loop (current_index ses) 1 s) = fold prefetchImage ids s"
      using prefetch_loop_is_fold by blast
    show ?thesis
    proof (cases "prefetch_loop (current_index ses) 1 s")
      case (Thrown e t)
      with ses ne have "state_of (prefetchImages s) = t" by (simp add: prefetchImages_def)
      with ids Thrown show ?thesis by auto
    next
      case (Done t)
      with ids have t: "t = fold prefetchImage ids s" by simp
      show ?thesis
      proof (cases "current_index ses > 0")
        case False
        with ses ne Done have "state_of (prefetchImages s) = cleanImageCache t"
          by (simp add: prefetchImages_def)
        with t show ?thesis by blast
      next
        case pos: True
        show ?thesis
        proof (cases "js_index (images ses) (current_index ses - 1)")
          case None
          with ses ne Done pos have "state_of (prefetchImages s) = t"
            by (simp add: prefetchImages_def)
          with t show ?thesis by blast
        next
          case (Some r)
          with ses ne Done pos
          have "state_of (prefetchImages s) = cleanImageCache (prefetchImage (img_id (heap t r)) t)"
            by (simp add: prefetchImages_def)
          also have "prefetchImage (img_id (heap t r)) t =
              fold prefetchImage (ids @ [img_id (heap t r)]) s"
            by (simp add: t)
          finally show ?thesis by blast
        qed
      qed
    qed
  qed
qed

lemma prefetchImages_fields [simp]:
  "heap (state_of (prefetchImages s)) = heap s"
  "heap_next (state_of (prefetchImages s)) = heap_next s"
  "session (state_of (prefetchImages s)) = session s"
  "currentImage (state_of (prefetchImages s)) = currentImage s"
  "ws (state_of (prefetchImages s)) = ws s"
  "wsReconnectAttempt (state_of (prefetchImages s)) = wsReconnectAttempt s"
  "wsReconnectTimeout (state_of (prefetchImages s)) = wsReconnectTimeout s"
  "wsHeartbeatInterval (state_of (prefetchImages s)) = wsHeartbeatInterval s"
  "activeOverlay (state_of (prefetchImages s)) = activeOverlay s"
  "commitPreview (state_of (prefetchImages s)) = commitPreview s"
  "filterMode (state_of (prefetchImages s)) = filterMode s"
  "lastKey (state_of (prefetchImages s)) = lastKey s"
  "keyComboTimeout (state_of (prefetchImages s)) = keyComboTimeout s"
  "connectionStatusHidden (state_of (prefetchImages s)) = connectionStatusHidden s"
  "timers (state_of (prefetchImages s)) = timers s"
  "timer_next (state_of (prefetchImages s)) = timer_next s"
  using prefetchImages_is_fold [of s] by auto

lemma emit_fields [simp]:
  "heap (emit e s) = heap s"
  "heap_next (emit e s) = heap_next s"
  "session (emit e s) = session s"
  "currentImage (emit e s) = currentImage s"
  "imageCache (emit e s) = imageCache s"
  "prefetchingImages (emit e s) = prefetchingImages s"
  "ws (emit e s) = ws s"
  "wsReconnectAttempt (emit e s) = wsReconnectAttempt s"
  "wsReconnectTimeout (emit e s) = wsReconnectTimeout s"
  "wsHeartbeatInterval (emit e s) = wsHeartbeatInterval s"
  "activeOverlay (emit e s) = activeOverlay s"
  "commitPreview (emit e s) = commitPreview s"
  "filterMode (emit e s) = filterMode s"
  "lastKey (emit e s) = lastKey s"
  "keyComboTimeout (emit e s) = keyComboTimeout s"
  "connectionStatusHidden (emit e s) = connectionStatusHidden s"
  "timers (emit e s) = timers s"
  "timer_next (emit e s) = timer_next s"
  "loading (emit e s) = loading s"
  "effects (emit e s) = effects s @ [e]"
  by (simp_all add: emit_def)

lemma sendWebSocketMessage_fields [simp]:
  "heap (sendWebSocketMessage m s) = heap s"
  "heap_next (sendWebSocketMessage m s) = heap_next s"
  "session (sendWebSocketMessage m s) = session s"
  "currentImage (sendWebSocketMessage m s) = currentImage s"
  "imageCache (sendWebSocketMessage m s) = imageCache s"
  "prefetchingImages (sendWebSocketMessage m s) = prefetchingImages s"
  "ws (sendWebSocketMessage m s) = ws s"
  "wsReconnectAttempt (sendWebSocketMessage m s) = wsReconnectAttempt s"
  "wsReconnectTimeout (sendWebSocketMessage m s) = wsReconnectTimeout s"
  "wsHeartbeatInterval (sendWebSocketMessage m s) = wsHeartbeatInterval s"
  "activeOverlay (sendWebSocketMessage m s) = activeOverlay s"
  "commitPreview (sendWebSocketMessage m s) = commitPreview s"
  "filterMode (sendWebSocketMessage m s) = filterMode s"
  "lastKey (sendWebSocketMessage m s) = lastKey s"
  "keyComboTimeout (sendWebSocketMessage m s) = keyComboTimeout s"
  "connectionStatusHidden (sendWebSocketMessage m s) = connectionStatusHidden s"
  "timers (sendWebSocketMessage m s) = timers s"
  "timer_next (sendWebSocketMessage m s) = timer_next s"
  "loading (sendWebSocketMessage m s) = loading s"
  "effects (sendWebSocketMessage m s) =
     effects s @ (if ws s = Some OPEN then [WsSend m] else [])"
  by (simp_all add: sendWebSocketMessage_def)

text \<open>The first loop, in closed form: the next images, at most \<open>PREFETCH_COUNT\<close> of them.\<close>

lemma prefetch_loop_closed:
  "session s = Some ses \<Longrightarrow> 0 \<le> c + i \<Longrightarrow>
   prefetch_loop c i s =
     Done (fold prefetchImage
             (map (\<lambda>r. img_id (heap s r))
                (take (nat (PREFETCH_COUNT + 1 - i)) (drop (nat (c + i)) (images ses)))) s)"
proof (induction c i s rule: prefetch_loop.induct)
  case (1 c i s)
  note ses = \<open>session s = Some ses\<close> and nn = \<open>0 \<le> c + i\<close>
  show ?case
  proof (cases "i \<le> PREFETCH_COUNT")
    case False
    then show ?thesis by (simp add: prefetch_loop.simps [of c i s])
  next
    case le: True
    show ?thesis
    proof (cases "c + i < int (length (images ses))")
      case False
      with le ses have eq: "prefetch_loop c i s = prefetch_loop c (i + 1) s"
        by (simp add: prefetch_loop.simps [of c i s])
      from False nn have "drop (nat (c + i)) (images ses) = []"
        and "drop (nat (c + (i + 1))) (images ses) = []" by auto
      with "1.IH"(2) [OF le ses refl False ses] nn eq show ?thesis by simp
    next
      case lt: True
      let ?r = "images ses ! nat (c + i)"
      let ?s' = "prefetchImage (img_id (heap s ?r)) s"
      from lt nn have ix: "js_index (images ses) (c + i) = Some ?r"
        by (simp add: js_index_def)
      with le ses lt have eq: "prefetch_loop c i s = prefetch_loop c (i + 1) ?s'"
        by (simp add: prefetch_loop.simps [of c i s])
      have ses': "session ?s' = Some ses" using ses by simp
      from lt nn have k: "nat (c + i) < length (images ses)" by simp
      have n1: "nat (PREFETCH_COUNT + 1 - i) = Suc (nat (PREFETCH_COUNT + 1 - (i + 1)))"
        using le by simp
      have n2: "nat (c + (i + 1)) = Suc (nat (c + i))" using nn by simp
      have tk: "take (nat (PREFETCH_COUNT + 1 - i)) (drop (nat (c + i)) (images ses)) =
          ?r # take (nat (PREFETCH_COUNT + 1 - (i + 1))) (drop (nat (c + (i + 1))) (images ses))"
        unfolding n1 n2 using Cons_nth_drop_Suc [OF k, symmetric] by simp
      from "1.IH"(1) [OF le ses refl lt ix ses'] nn
      have "prefetch_loop c (i + 1) ?s' =
          Done (fold prefetchImage
             (map (\<lambda>r. img_id (heap s r))
                (take (nat (PREFETCH_COUNT + 1 - (i + 1)))
                   (drop (nat (c + (i + 1))) (images ses)))) ?s')"
        by simp
      with eq show ?thesis unfolding tk by simp
    qed
  qed
qed

text \<open>
  The identifiers that \<open>prefetchImages\<close> hands to \<open>prefetchImage\<close>, as the specification
  words them: the next three images after the cursor, as far as the list goes, then the
  image right before the cursor when there is one.
\<close>

lemma prefetchImages_closed:
  assumes ses: "session s = Some ses" and ne: "images ses \<noteq> []"
    and lo: "0 \<le> current_index ses" and hi: "current_index ses \<le> int (length (images ses))"
  shows "prefetchImages s = Done (cleanImageCache (fold prefetchImage (prefetch_ids s ses) s))"
proof -
  let ?next = "map (\<lambda>r. img_id (heap s r)) (take 3 (drop (nat (current_index ses) + 1) (images ses)))"
  let ?t = "fold prefetchImage ?next s"
  have n: "nat (current_index ses + 1) = nat (current_index ses) + 1" using lo by simp
  have loop: "prefetch_loop (current_index ses) 1 s = Done ?t"
    using prefetch_loop_closed [OF ses, of "current_index ses" 1] lo
    by (simp add: PREFETCH_COUNT_def n)
  show ?thesis
  proof (cases "0 < current_index ses")
    case False
    with ses ne loop show ?thesis
      by (simp add: prefetchImages_def prefetch_ids_def)
  next
    case True
    with hi have "js_index (images ses) (current_index ses - 1) =
        Some (images ses ! nat (current_index ses - 1))"
      by (simp add: js_index_def)
    with True ses ne loop show ?thesis
      by (simp add: prefetchImages_def prefetch_ids_def)
  qed
qed

lemma updateFolderContext_fields [simp]:
  "heap (updateFolderContext f s) = heap s"
  "session (updateFolderContext f s) = session s"
  "currentImage (updateFolderContext f s) = currentImage s"
  "ws (updateFolderContext f s) = ws s"
  "activeOverlay (updateFolderContext f s) = activeOverlay s"
  "lastKey (updateFolderContext f s) = lastKey s"
  "timers (updateFolderContext f s) = timers s"
  "imageCache (updateFolderContext f s) = imageCache s"
  "prefetchingImages (updateFolderContext f s) = prefetchingImages s"
  "loading (updateFolderContext f s) = loading s"
  by (simp_all add: updateFolderContext_def)

lemma navigateToIndex_out_of_range:
  "session s = None \<or> i < 0 \<or> (\<exists>ses. session s = Some ses \<and> int (length (images ses)) \<le> i)
   \<Longrightarrow> navigateToIndex i s = Done s"
  by (auto simp: navigateToIndex_def split: option.splits)

lemma navigateToIndex_valid:
  assumes ses: "session s = Some ses" and lo: "0 \<le> i" and hi: "i < int (length (images ses))"
  shows "returns (navigateToIndex i s)"
    and "session (state_of (navigateToIndex i s)) = Some (ses\<lparr>current_index := i\<rparr>)"
    and "currentImage (state_of (navigateToIndex i s)) = Some (images ses ! nat i)"
    and "heap (state_of (navigateToIndex i s)) = heap s"
proof -
  let ?s1 = "updateUI (s\<lparr>session := Some (ses\<lparr>current_index := i\<rparr>),
                          currentImage := js_index (images ses) i\<rparr>)"
  have ne: "images ses \<noteq> []" using lo hi by auto
  have "prefetchImages ?s1 =
      Done (cleanImageCache (fold prefetchImage (prefetch_ids ?s1 (ses\<lparr>current_index := i\<rparr>)) ?s1))"
    by (rule prefetchImages_closed) (use lo hi ne in simp_all)
  then obtain t where t: "prefetchImages ?s1 = Done t"
    and ft: "session t = session ?s1" "currentImage t = currentImage ?s1" "heap t = heap ?s1"
    by simp
  have ci: "js_index (images ses) i = Some (images ses ! nat i)"
    using lo hi by (simp add: js_index_def)
  show "returns (navigateToIndex i s)"
    using ses lo hi t by (simp add: navigateToIndex_def Let_def)
  show "session (state_of (navigateToIndex i s)) = Some (ses\<lparr>current_index := i\<rparr>)"
    using ses lo hi t ft by (simp add: navigateToIndex_def Let_def split: option.splits)
  show "currentImage (state_of (navigateToIndex i s)) = Some (images ses ! nat i)"
    using ses lo hi t ft ci by (simp add: navigateToIndex_def Let_def split: option.splits)
  show "heap (state_of (navigateToIndex i s)) = heap s"
    using ses lo hi t ft by (simp add: navigateToIndex_def Let_def split: option.splits)
qed

lemma state_of_andThen:
  "state_of (andThen r f) = (if returns r then state_of (f (state_of r)) else state_of r)"
  by (cases r) simp_all

lemma returns_andThen: "returns (andThen r f) \<longleftrightarrow> returns r \<and> returns (f (state_of r))"
  by (cases r) simp_all

lemma Done_state_of: "returns r \<Longrightarrow> r = Done (state_of r)"
  by (cases r) simp_all

lemma navigateToIndex_fields [simp]:
  "heap (state_of (navigateToIndex i s)) = heap s"
  "heap_next (state_of (navigateToIndex i s)) = heap_next s"
  "ws (state_of (navigateToIndex i s)) = ws s"
  "wsReconnectAttempt (state_of (navigateToIndex i s)) = wsReconnectAttempt s"
  "wsReconnectTimeout (state_of (navigateToIndex i s)) = wsReconnectTimeout s"
  "wsHeartbeatInterval (state_of (navigateToIndex i s)) = wsHeartbeatInterval s"
  "activeOverlay (state_of (navigateToIndex i s)) = activeOverlay s"
  "commitPreview (state_of (navigateToIndex i s)) = commitPreview s"
  "filterMode (state_of (navigateToIndex i s)) = filterMode s"
  "lastKey (state_of (navigateToIndex i s)) = lastKey s"
  "keyComboTimeout (state_of (navigateToIndex i s)) = keyComboTimeout s"
  "connectionStatusHidden (state_of (navigateToIndex i s)) = connectionStatusHidden s"
  "timers (state_of (navigateToIndex i s)) = timers s"
  "timer_next (state_of (navigateToIndex i s)) = timer_next s"
  by (simp_all add: navigateToIndex_def Let_def state_of_andThen updateFolderContext_def
      split: option.splits)

lemma navigateNext_fields [simp]:
  "heap (state_of (navigateNext s)) = heap s"
  "heap_next (state_of (navigateNext s)) = heap_next s"
  "ws (state_of (navigateNext s)) = ws s"
  "wsReconnectAttempt (state_of (navigateNext s)) = wsReconnectAttempt s"
  "wsReconnectTimeout (state_of (navigateNext s)) = wsReconnectTimeout s"
  "wsHeartbeatInterval (state_of (navigateNext s)) = wsHeartbeatInterval s"
  "activeOverlay (state_of (navigateNext s)) = activeOverlay s"
  "commitPreview (state_of (navigateNext s)) = commitPreview s"
  "filterMode (state_of (navigateNext s)) = filterMode s"
  "lastKey (state_of (navigateNext s)) = lastKey s"
  "keyComboTimeout (state_of (navigateNext s)) = keyComboTimeout s"
  "connectionStatusHidden (state_of (navigateNext s)) = connectionStatusHidden s"
  "timers (state_of (navigateNext s)) = timers s"
  "timer_next (state_of (navigateNext s)) = timer_next s"
  by (simp_all add: navigateNext_def Let_def split: option.splits)

lemma navigatePrevious_fields [simp]:
  "heap (state_of (navigatePrevious s)) = heap s"
  "heap_next (state_of (navigatePrevious s)) = heap_next s"
  "ws (state_of (navigatePrevious s)) = ws s"
  "wsReconnectAttempt (state_of (navigatePrevious s)) = wsReconnectAttempt s"
  "wsReconnectTimeout (state_of (navigatePrevious s)) = wsReconnectTimeout s"
  "wsHeartbeatInterval (state_of (navigatePrevious s)) = wsHeartbeatInterval s"
  "activeOverlay (state_of (navigatePrevious s)) = activeOverlay s"
  "commitPreview (state_of (navigatePrevious s)) = commitPreview s"
  "filterMode (state_of (navigatePrevious s)) = filterMode s"
  "lastKey (state_of (navigatePrevious s)) = lastKey s"
  "keyComboTimeout (state_of (navigatePrevious s)) = keyComboTimeout s"
  "connectionStatusHidden (state_of (navigatePrevious s)) = connectionStatusHidden s"
  "timers (state_of (navigatePrevious s)) = timers s"
  "timer_next (state_of (navigatePrevious s)) = timer_next s"
  by (simp_all add: navigatePrevious_def Let_def split: option.splits)

text \<open>\<open>navigateNext\<close> moves the cursor to the clamped successor and never throws.\<close>

lemma navigateNext_valid:
  assumes ses: "session s = Some ses" and ne: "images ses \<noteq> []"
    and lo: "0 \<le> current_index ses" and hi: "current_index ses < int (length (images ses))"
  shows "returns (navigateNext s)"
    and "session (state_of (navigateNext s)) =
           Some (ses\<lparr>current_index :=
                   min (current_index ses + 1) (int (length (images ses)) - 1)\<rparr>)"
proof -
  let ?n = "min (current_index ses + 1) (int (length (images ses)) - 1)"
  have n: "0 \<le> ?n" "?n < int (length (images ses))" using lo hi by auto
  note v = navigateToIndex_valid [OF ses n]
  show "returns (navigateNext s)"
    using ses ne v(1) by (simp add: navigateNext_def Let_def)
  show "session (state_of (navigateNext s)) = Some (ses\<lparr>current_index := ?n\<rparr>)"
  proof (cases "?n = current_index ses")
    case True
    then have "ses\<lparr>current_index := ?n\<rparr> = ses" by simp
    with True ses ne show ?thesis by (simp add: navigateNext_def Let_def)
  next
    case False
    with ses ne v(2) show ?thesis by (simp add: navigateNext_def Let_def)
  qed
qed

lemma navigatePrevious_valid:
  assumes ses: "session s = Some ses" and ne: "images ses \<noteq> []"
    and lo: "0 \<le> current_index ses" and hi: "current_index ses < int (length (images ses))"
  shows "returns (navigatePrevious s)"
    and "session (state_of (navigatePrevious s)) =
           Some (ses\<lparr>current_index := max (current_index ses - 1) 0\<rparr>)"
proof -
  let ?n = "max (current_index ses - 1) 0"
  have n: "0 \<le> ?n" "?n < int (length (images ses))" using lo hi by auto
  note v = navigateToIndex_valid [OF ses n]
  show "returns (navigatePrevious s)"
    using ses ne v(1) by (simp add: navigatePrevious_def Let_def)
  show "session (state_of (navigatePrevious s)) = Some (ses\<lparr>current_index := ?n\<rparr>)"
  proof (cases "?n = current_index ses")
    case True
    then have "ses\<lparr>current_index := ?n\<rparr> = ses" by simp
    with True ses ne show ?thesis by (simp add: navigatePrevious_def Let_def)
  next
    case False
    with ses ne v(2) show ?thesis by (simp add: navigatePrevious_def Let_def)
  qed
qed

section \<open>The example replica\<close>

lemma example_app_session: "session example_app = Some example_session"
  by (simp add: example_app_def example_session_def example_payload_def
      loadSession_resumed_def constructor_def js_index_def)

lemma example_app_fields:
  "currentImage example_app = Some 0"
  "ws example_app = Some OPEN"
  "effects example_app = []"
  "activeOverlay example_app = None"
  "lastKey example_app = None"
  "imageCache example_app = []"
  "prefetchingImages example_app = {}"
  "loading example_app = []"
  "timers example_app = []"
  "timer_next example_app = 1"
  "wsReconnectAttempt example_app = 0"
  by (simp_all add: example_app_def example_payload_def
      loadSession_resumed_def constructor_def js_index_def)

lemma example_app_heap:
  "img_id (heap example_app 0) = ''a.jpg''"
  "img_id (heap example_app 1) = ''b.jpg''"
  "img_id (heap example_app (Suc 0)) = ''b.jpg''"
  "img_id (heap example_app 2) = ''c.jpg''"
  "label (heap example_app 0) = None"
  "label (heap example_app (Suc 0)) = None"
  "label (heap example_app 2) = None"
  "marked_for_deletion (heap example_app 0) = False"
  "marked_for_deletion (heap example_app (Suc 0)) = False"
  "marked_for_deletion (heap example_app 2) = False"
  by (simp_all add: example_app_def example_payload_def
      loadSession_resumed_def constructor_def js_index_def)

lemma example_session_fields [simp]:
  "images example_session = [0, 1, 2]"
  "current_index example_session = 0"
  "classes example_session = [''cat'', ''dog'']"
  by (simp_all add: example_session_def)

lemma navigateToIndex_returns: "returns (navigateToIndex i s)"
proof (cases "session s")
  case None
  then show ?thesis by (simp add: navigateToIndex_out_of_range)
next
  case (Some ses)
  show ?thesis
  proof (cases "0 \<le> i \<and> i < int (length (images ses))")
    case True
    with Some show ?thesis using navigateToIndex_valid(1) by blast
  next
    case False
    with Some have "navigateToIndex i s = Done s"
      by (intro navigateToIndex_out_of_range) auto
    then show ?thesis by simp
  qed
qed

lemma navigateNext_returns: "returns (navigateNext s)"
  by (simp add: navigateNext_def Let_def navigateToIndex_returns split: option.splits)

lemma navigatePrevious_returns: "returns (navigatePrevious s)"
  by (simp add: navigatePrevious_def Let_def navigateToIndex_returns split: option.splits)

section \<open>Cursor navigation\<close>

text \<open>
  C9. On a session with a non-empty image list whose cursor is a valid position,
  \<open>navigateNext\<close> and \<open>navigatePrevious\<close> return, leave the image list alone and move
  the cursor to the successor clamped at the last position, respectively the
  predecessor clamped at 0, so the cursor is again a valid position. \<open>navigateToIndex\<close>
  with an index outside the list, or without a session, returns the state it was
  given: no field changes and nothing is added to the log of effects, so no message
  is sent.
\<close>

theorem navigation_keeps_cursor_valid:
  assumes "session s = Some ses" and "images ses \<noteq> []"
    and "0 \<le> current_index ses" and "current_index ses < int (length (images ses))"
  shows "(\<exists>t ses'. navigateNext s = Done t \<and> session t = Some ses'
            \<and> images ses' = images ses
            \<and> current_index ses' = min (current_index ses + 1) (int (length (images ses)) - 1)
            \<and> 0 \<le> current_index ses' \<and> current_index ses' < int (length (images ses')))
       \<and> (\<exists>t ses'. navigatePrevious s = Done t \<and> session t = Some ses'
            \<and> images ses' = images ses
            \<and> current_index ses' = max (current_index ses - 1) 0
            \<and> 0 \<le> current_index ses' \<and> current_index ses' < int (length (images ses')))
       \<and> (i < 0 \<or> int (length (images ses)) \<le> i \<longrightarrow> navigateToIndex i s = Done s)
       \<and> (session u = None \<longrightarrow> navigateToIndex j u = Done u)"
proof -
  let ?n = "min (current_index ses + 1) (int (length (images ses)) - 1)"
  let ?p = "max (current_index ses - 1) 0"
  have nx: "navigateNext s = Done (state_of (navigateNext s))"
    by (rule Done_state_of) (rule navigateNext_returns)
  have pv: "navigatePrevious s = Done (state_of (navigatePrevious s))"
    by (rule Done_state_of) (rule navigatePrevious_returns)
  have a: "\<exists>t ses'. navigateNext s = Done t \<and> session t = Some ses'
            \<and> images ses' = images ses \<and> current_index ses' = ?n
            \<and> 0 \<le> current_index ses' \<and> current_index ses' < int (length (images ses'))"
    using nx navigateNext_valid(2) [OF assms] assms(3,4)
    by (intro exI [of _ "state_of (navigateNext s)"] exI [of _ "ses\<lparr>current_index := ?n\<rparr>"])
       auto
  have b: "\<exists>t ses'. navigatePrevious s = Done t \<and> session t = Some ses'
            \<and> images ses' = images ses \<and> current_index ses' = ?p
            \<and> 0 \<le> current_index ses' \<and> current_index ses' < int (length (images ses'))"
    using pv navigatePrevious_valid(2) [OF assms] assms(3,4)
    by (intro exI [of _ "state_of (navigatePrevious s)"] exI [of _ "ses\<lparr>current_index := ?p\<rparr>"])
       auto
  have c: "i < 0 \<or> int (length (images ses)) \<le> i \<longrightarrow> navigateToIndex i s = Done s"
    using assms(1) by (auto intro: navigateToIndex_out_of_range)
  have d: "session u = None \<longrightarrow> navigateToIndex j u = Done u"
    by (auto intro: navigateToIndex_out_of_range)
  from a b c d show ?thesis by blast
qed

theorem navigation_keeps_cursor_valid_witness:
  "(\<exists>t ses'. navigateNext example_app = Done t \<and> session t = Some ses'
       \<and> images ses' = [0, 1, 2] \<and> current_index ses' = 1)
   \<and> (\<exists>t ses'. navigatePrevious example_app = Done t \<and> session t = Some ses'
       \<and> images ses' = [0, 1, 2] \<and> current_index ses' = 0)
   \<and> navigateToIndex 7 example_app = Done example_app
   \<and> navigateToIndex 0 (constructor True) = Done (constructor True)"
proof -
  have "session (constructor True) = None" by (simp add: constructor_def)
  with navigation_keeps_cursor_valid
    [of example_app example_session 7 "constructor True" 0, OF example_app_session]
  have "(\<exists>t ses'. navigateNext example_app = Done t \<and> session t = Some ses'
            \<and> images ses' = [0, 1, 2] \<and> current_index ses' = 1
            \<and> 0 \<le> current_index ses' \<and> current_index ses' < int (length (images ses')))
       \<and> (\<exists>t ses'. navigatePrevious example_app = Done t \<and> session t = Some ses'
            \<and> images ses' = [0, 1, 2] \<and> current_index ses' = 0
            \<and> 0 \<le> current_index ses' \<and> current_index ses' < int (length (images ses')))
       \<and> navigateToIndex 7 example_app = Done example_app
       \<and> navigateToIndex 0 (constructor True) = Done (constructor True)"
    by simp
  then show ?thesis by blast
qed

section \<open>Class keys\<close>

lemma labelImage_unfold:
  "currentImage s = Some cur \<Longrightarrow> session s = Some ses \<Longrightarrow>
   labelImage c s =
     Done (sendWebSocketMessage (MsgLabel (img_id (heap s cur)) c)
       (state_of (navigateNext
          (s\<lparr>heap := (heap s)(cur := (heap s cur)
               \<lparr>label := Some c, class_name := class_at (classes ses) c,
                marked_for_deletion := False\<rparr>)\<rparr>))))"
proof -
  assume cur: "currentImage s = Some cur" and ses: "session s = Some ses"
  let ?s1 = "s\<lparr>heap := (heap s)(cur := (heap s cur)
               \<lparr>label := Some c, class_name := class_at (classes ses) c,
                marked_for_deletion := False\<rparr>)\<rparr>"
  obtain t where "navigateNext ?s1 = Done t"
    using navigateNext_returns [of ?s1] by (auto simp: returns_Done_iff)
  then show ?thesis
    using cur ses by (simp add: labelImage_def Let_def)
qed

lemma deleteImage_unfold:
  "currentImage s = Some cur \<Longrightarrow>
   deleteImage s =
     Done (sendWebSocketMessage (MsgDelete (img_id (heap s cur)))
       (state_of (navigateNext
          (s\<lparr>heap := (heap s)(cur := (heap s cur)
               \<lparr>label := None, class_name := JNull, marked_for_deletion := True\<rparr>)\<rparr>))))"
proof -
  assume cur: "currentImage s = Some cur"
  let ?s1 = "s\<lparr>heap := (heap s)(cur := (heap s cur)
               \<lparr>label := None, class_name := JNull, marked_for_deletion := True\<rparr>)\<rparr>"
  obtain t where "navigateNext ?s1 = Done t"
    using navigateNext_returns [of ?s1] by (auto simp: returns_Done_iff)
  then show ?thesis
    using cur by (simp add: deleteImage_def Let_def)
qed

lemma digit_of_number_key:
  assumes "0 \<le> k" and "k \<le> 9"
  shows "digit_of_key (number_key k) = Some k"
    and "number_key k \<noteq> ''Escape''"
proof -
  from assms have "k = 0 \<or> k = 1 \<or> k = 2 \<or> k = 3 \<or> k = 4 \<or> k = 5 \<or> k = 6
      \<or> k = 7 \<or> k = 8 \<or> k = 9" by arith
  then consider "k = 0" | "k = 1" | "k = 2" | "k = 3" | "k = 4" | "k = 5" | "k = 6"
    | "k = 7" | "k = 8" | "k = 9" by blast
  then have "digit_of_key (number_key k) = Some k \<and> number_key k \<noteq> ''Escape''"
    by cases (simp_all add: number_key_def digit_of_key_def)
  then show "digit_of_key (number_key k) = Some k" and "number_key k \<noteq> ''Escape''"
    by simp_all
qed

lemma applyFilter_keeps:
  assumes "session s = Some ses"
  shows "returns (applyFilter n s)"
    and "heap (state_of (applyFilter n s)) = heap s"
    and "session (state_of (applyFilter n s)) = session s"
    and "currentImage (state_of (applyFilter n s)) = currentImage s"
  using assms
  by (simp_all add: applyFilter_def showToast_def emit_def split: jstring.splits)

text \<open>Where a number key goes, depending on the target, the overlay and filter mode.\<close>

lemma number_key_dispatch:
  assumes k: "0 \<le> k" "k \<le> 9" and key: "key ev = number_key k"
    and tgt: "target_tagName ev \<noteq> ''INPUT''" "target_tagName ev \<noteq> ''TEXTAREA''"
  shows "activeOverlay s = None \<Longrightarrow> \<not> filterMode s \<Longrightarrow>
           handle (KeyDown ev) s = state_of (handleClassKey k s)"
    and "activeOverlay s = Some Commit \<Longrightarrow> handle (KeyDown ev) s = s"
    and "activeOverlay s = Some Help \<or> activeOverlay s = Some Stats \<Longrightarrow>
           handle (KeyDown ev) s = closeOverlay s"
    and "activeOverlay s = None \<Longrightarrow> filterMode s \<Longrightarrow>
           handle (KeyDown ev) s =
             state_of (andThen (applyFilter k s) (\<lambda>s1. Done (s1\<lparr>filterMode := False\<rparr>)))"
proof -
  note d = digit_of_number_key [OF k]
  have ne: "key ev \<noteq> ''Escape''" "key ev \<noteq> ''Enter''"
    using d key by (auto simp: digit_of_key_def)
  show "activeOverlay s = None \<Longrightarrow> \<not> filterMode s \<Longrightarrow>
      handle (KeyDown ev) s = state_of (handleClassKey k s)"
    using tgt key d by (simp add: handleKeyDown_def main_shortcut_def Let_def)
  show "activeOverlay s = Some Commit \<Longrightarrow> handle (KeyDown ev) s = s"
    using tgt ne by (simp add: handleKeyDown_def)
  show "activeOverlay s = Some Help \<or> activeOverlay s = Some Stats \<Longrightarrow>
      handle (KeyDown ev) s = closeOverlay s"
    using tgt ne by (auto simp: handleKeyDown_def)
  show "activeOverlay s = None \<Longrightarrow> filterMode s \<Longrightarrow>
      handle (KeyDown ev) s =
        state_of (andThen (applyFilter k s) (\<lambda>s1. Done (s1\<lparr>filterMode := False\<rparr>)))"
    using tgt key d by (simp add: handleKeyDown_def)
qed

text \<open>
  C10. A key event reaches the labelling shortcuts only when its target is not an
  input field, no overlay is open and filter mode is off. Under these conditions, on
  a session with at least one class, pressing number key \<open>k\<close> from 0 to 9 is the call
  \<open>handleClassKey k\<close>. For \<open>k\<close> from 1 to 9 that call runs \<open>labelImage\<close> with class
  index \<open>k - 1\<close> when this index is below the number of classes, so that the current
  image then carries label \<open>k - 1\<close>; otherwise the only change is the warning toast.
  For key 0 it runs \<open>labelImage\<close> with \<open>min 9 (c - 1)\<close>, which is a valid index. Hence
  for every key from 0 to 9 the class index handed to \<open>labelImage\<close> is in range.
  A number key does not label in the other cases: in an input field and under the
  commit overlay it changes nothing, under the help or the stats overlay it closes the
  overlay and nothing else, and in filter mode it is taken as a filter and ends filter
  mode, with store, session and current image as they were.
\<close>

theorem class_key_labels_in_range:
  assumes "session s = Some ses" and "1 \<le> length (classes ses)"
  shows "(0 \<le> n \<and> n \<le> 9 \<and> key ev = number_key n
            \<and> target_tagName ev \<noteq> ''INPUT'' \<and> target_tagName ev \<noteq> ''TEXTAREA''
            \<and> activeOverlay s = None \<and> \<not> filterMode s \<longrightarrow>
            handle (KeyDown ev) s = state_of (handleClassKey n s))
       \<and> (1 \<le> k \<and> k \<le> 9 \<and> k - 1 < int (length (classes ses)) \<longrightarrow>
            handleClassKey k s = Done (state_of (labelImage (k - 1) s))
            \<and> (\<forall>cur. currentImage s = Some cur \<longrightarrow>
                  label (heap (state_of (handleClassKey k s)) cur) = Some (k - 1)))
       \<and> (1 \<le> k \<and> k \<le> 9 \<and> int (length (classes ses)) \<le> k - 1 \<longrightarrow>
            handleClassKey k s =
              Done (s\<lparr>effects := effects s @ [Toast (TClassNotDefined k) Warning]\<rparr>))
       \<and> handleClassKey 0 s =
            Done (state_of (labelImage (min 9 (int (length (classes ses)) - 1)) s))
       \<and> 0 \<le> min 9 (int (length (classes ses)) - 1)
       \<and> min 9 (int (length (classes ses)) - 1) < int (length (classes ses))
       \<and> (0 \<le> k \<and> k \<le> 9 \<longrightarrow>
            (\<exists>ci. 0 \<le> ci \<and> ci < int (length (classes ses))
                  \<and> handleClassKey k s = Done (state_of (labelImage ci s)))
            \<or> handleClassKey k s =
                 Done (s\<lparr>effects := effects s @ [Toast (TClassNotDefined k) Warning]\<rparr>))
       \<and> (target_tagName ev = ''INPUT'' \<or> target_tagName ev = ''TEXTAREA'' \<longrightarrow>
            handle (KeyDown ev) s = s)
       \<and> (0 \<le> n \<and> n \<le> 9 \<and> key ev = number_key n
            \<and> target_tagName ev \<noteq> ''INPUT'' \<and> target_tagName ev \<noteq> ''TEXTAREA'' \<longrightarrow>
            (activeOverlay s = Some Commit \<longrightarrow> handle (KeyDown ev) s = s)
            \<and> (activeOverlay s = Some Help \<or> activeOverlay s = Some Stats \<longrightarrow>
                 handle (KeyDown ev) s = s\<lparr>activeOverlay := None\<rparr>)
            \<and> (activeOverlay s = None \<and> filterMode s \<longrightarrow>
                 heap (handle (KeyDown ev) s) = heap s
                 \<and> session (handle (KeyDown ev) s) = session s
                 \<and> currentImage (handle (KeyDown ev) s) = currentImage s
                 \<and> \<not> filterMode (handle (KeyDown ev) s)))"
proof -
  let ?c = "int (length (classes ses))"
  have press: "0 \<le> n \<Longrightarrow> n \<le> 9 \<Longrightarrow> key ev = number_key n \<Longrightarrow>
      target_tagName ev \<noteq> ''INPUT'' \<Longrightarrow> target_tagName ev \<noteq> ''TEXTAREA'' \<Longrightarrow>
      activeOverlay s = None \<Longrightarrow> \<not> filterMode s \<Longrightarrow>
      handle (KeyDown ev) s = state_of (handleClassKey n s)"
    by (rule number_key_dispatch(1))
  have hit: "1 \<le> k \<Longrightarrow> k - 1 < ?c \<Longrightarrow>
      handleClassKey k s = Done (state_of (labelImage (k - 1) s))"
    using assms(1) by (simp add: handleClassKey_def not_awaited_def)
  have lab: "1 \<le> k \<Longrightarrow> k - 1 < ?c \<Longrightarrow> currentImage s = Some cur \<Longrightarrow>
      label (heap (state_of (handleClassKey k s)) cur) = Some (k - 1)" for cur
    using hit assms(1) by (simp add: labelImage_unfold)
  have miss: "1 \<le> k \<Longrightarrow> ?c \<le> k - 1 \<Longrightarrow>
      handleClassKey k s = Done (s\<lparr>effects := effects s @ [Toast (TClassNotDefined k) Warning]\<rparr>)"
    using assms(1) by (simp add: handleClassKey_def showToast_def emit_def)
  have zero: "handleClassKey 0 s = Done (state_of (labelImage (min 9 (?c - 1)) s))"
    using assms by (simp add: handleClassKey_def not_awaited_def)
  have rng: "0 \<le> min 9 (?c - 1)" "min 9 (?c - 1) < ?c" using assms(2) by auto
  have every: "0 \<le> k \<Longrightarrow> k \<le> 9 \<Longrightarrow>
      (\<exists>ci. 0 \<le> ci \<and> ci < ?c \<and> handleClassKey k s = Done (state_of (labelImage ci s)))
      \<or> handleClassKey k s = Done (s\<lparr>effects := effects s @ [Toast (TClassNotDefined k) Warning]\<rparr>)"
  proof -
    assume k: "0 \<le> k" "k \<le> 9"
    consider "k = 0" | "1 \<le> k" "k - 1 < ?c" | "1 \<le> k" "?c \<le> k - 1" using k by linarith
    then show ?thesis
    proof cases
      case 1
      with zero rng show ?thesis by blast
    next
      case 2
      with hit have "0 \<le> k - 1 \<and> k - 1 < ?c
          \<and> handleClassKey k s = Done (state_of (labelImage (k - 1) s))" by simp
      then show ?thesis by blast
    next
      case 3
      with miss show ?thesis by blast
    qed
  qed
  have field: "target_tagName ev = ''INPUT'' \<or> target_tagName ev = ''TEXTAREA'' \<Longrightarrow>
      handle (KeyDown ev) s = s"
    by (auto simp: handleKeyDown_def)
  have blocked: "(activeOverlay s = Some Commit \<longrightarrow> handle (KeyDown ev) s = s)
      \<and> (activeOverlay s = Some Help \<or> activeOverlay s = Some Stats \<longrightarrow>
           handle (KeyDown ev) s = s\<lparr>activeOverlay := None\<rparr>)
      \<and> (activeOverlay s = None \<and> filterMode s \<longrightarrow>
           heap (handle (KeyDown ev) s) = heap s
           \<and> session (handle (KeyDown ev) s) = session s
           \<and> currentImage (handle (KeyDown ev) s) = currentImage s
           \<and> \<not> filterMode (handle (KeyDown ev) s))"
    if n: "0 \<le> n" "n \<le> 9" "key ev = number_key n"
      and t: "target_tagName ev \<noteq> ''INPUT''" "target_tagName ev \<noteq> ''TEXTAREA''"
  proof -
    note nd = number_key_dispatch [OF n t, of s]
    have c: "activeOverlay s = Some Commit \<longrightarrow> handle (KeyDown ev) s = s"
      using nd(2) by blast
    have h: "activeOverlay s = Some Help \<or> activeOverlay s = Some Stats \<longrightarrow>
        handle (KeyDown ev) s = s\<lparr>activeOverlay := None\<rparr>"
    proof
      assume o: "activeOverlay s = Some Help \<or> activeOverlay s = Some Stats"
      then have "handle (KeyDown ev) s = closeOverlay s" by (rule nd(3))
      with o show "handle (KeyDown ev) s = s\<lparr>activeOverlay := None\<rparr>"
        by (auto simp: closeOverlay_def)
    qed
    have f: "activeOverlay s = None \<and> filterMode s \<longrightarrow>
        heap (handle (KeyDown ev) s) = heap s
        \<and> session (handle (KeyDown ev) s) = session s
        \<and> currentImage (handle (KeyDown ev) s) = currentImage s
        \<and> \<not> filterMode (handle (KeyDown ev) s)"
    proof
      assume o: "activeOverlay s = None \<and> filterMode s"
      note af = applyFilter_keeps [OF assms(1), of n]
      from af(1) obtain u where u: "applyFilter n s = Done u"
        by (auto simp: returns_Done_iff)
      from o have "handle (KeyDown ev) s =
          state_of (andThen (applyFilter n s) (\<lambda>s1. Done (s1\<lparr>filterMode := False\<rparr>)))"
        using nd(4) by blast
      then have e: "handle (KeyDown ev) s = u\<lparr>filterMode := False\<rparr>"
        by (simp add: u del: handle.simps)
      from af(2-4) u have "heap u = heap s" "session u = session s"
        "currentImage u = currentImage s" by simp_all
      then show "heap (handle (KeyDown ev) s) = heap s
        \<and> session (handle (KeyDown ev) s) = session s
        \<and> currentImage (handle (KeyDown ev) s) = currentImage s
        \<and> \<not> filterMode (handle (KeyDown ev) s)"
        unfolding e by simp
    qed
    from c h f show ?thesis by blast
  qed
  from press hit lab miss zero rng every field blocked show ?thesis by blast
qed

theorem class_key_labels_in_range_witness:
  "handle (key_press ''2'') example_app = state_of (labelImage 1 example_app)
   \<and> label (heap (handle (key_press ''2'') example_app) 0) = Some 1
   \<and> handle (key_press ''5'') example_app =
       example_app\<lparr>effects := effects example_app @ [Toast (TClassNotDefined 5) Warning]\<rparr>
   \<and> handle (key_press ''0'') example_app = state_of (labelImage 1 example_app)
   \<and> handle (KeyDown \<lparr>target_tagName = ''INPUT'', key = ''2'', shiftKey = False\<rparr>) example_app =
       example_app
   \<and> handle (key_press ''2'') (example_app\<lparr>activeOverlay := Some Commit\<rparr>) =
       example_app\<lparr>activeOverlay := Some Commit\<rparr>
   \<and> handle (key_press ''2'') (example_app\<lparr>activeOverlay := Some Stats\<rparr>) =
       example_app\<lparr>activeOverlay := Some Stats, activeOverlay := None\<rparr>
   \<and> heap (handle (key_press ''2'') (example_app\<lparr>filterMode := True\<rparr>)) = heap example_app"
proof -
  let ?e2 = "\<lparr>target_tagName = ''BODY'', key = ''2'', shiftKey = False\<rparr>"
  let ?e5 = "\<lparr>target_tagName = ''BODY'', key = ''5'', shiftKey = False\<rparr>"
  let ?e0 = "\<lparr>target_tagName = ''BODY'', key = ''0'', shiftKey = False\<rparr>"
  let ?ei = "\<lparr>target_tagName = ''INPUT'', key = ''2'', shiftKey = False\<rparr>"
  let ?oc = "example_app\<lparr>activeOverlay := Some Commit\<rparr>"
  let ?os = "example_app\<lparr>activeOverlay := Some Stats\<rparr>"
  let ?fm = "example_app\<lparr>filterMode := True\<rparr>"
  have len: "1 \<le> length (classes example_session)" by simp
  have idle: "activeOverlay example_app = None" "\<not> filterMode example_app"
    by (simp_all add: example_app_def example_payload_def loadSession_resumed_def
        constructor_def js_index_def)
  note t = class_key_labels_in_range [OF example_app_session len]
  have q2: "(0::int) \<le> 2 \<and> (2::int) \<le> 9 \<and> key ?e2 = number_key 2
      \<and> target_tagName ?e2 \<noteq> ''INPUT'' \<and> target_tagName ?e2 \<noteq> ''TEXTAREA''
      \<and> activeOverlay example_app = None \<and> \<not> filterMode example_app"
    using idle by (simp add: number_key_def)
  have q5: "(0::int) \<le> 5 \<and> (5::int) \<le> 9 \<and> key ?e5 = number_key 5
      \<and> target_tagName ?e5 \<noteq> ''INPUT'' \<and> target_tagName ?e5 \<noteq> ''TEXTAREA''
      \<and> activeOverlay example_app = None \<and> \<not> filterMode example_app"
    using idle by (simp add: number_key_def)
  have q0: "(0::int) \<le> 0 \<and> (0::int) \<le> 9 \<and> key ?e0 = number_key 0
      \<and> target_tagName ?e0 \<noteq> ''INPUT'' \<and> target_tagName ?e0 \<noteq> ''TEXTAREA''
      \<and> activeOverlay example_app = None \<and> \<not> filterMode example_app"
    using idle by (simp add: number_key_def)
  from t [of 2 ?e2] q2
  have k2: "handle (KeyDown ?e2) example_app = state_of (handleClassKey 2 example_app)"
    by blast
  from t [of 5 ?e5] q5
  have k5: "handle (KeyDown ?e5) example_app = state_of (handleClassKey 5 example_app)"
    by blast
  from t [of 0 ?e0] q0
  have k0: "handle (KeyDown ?e0) example_app = state_of (handleClassKey 0 example_app)"
    by blast
  have p2: "(1::int) \<le> 2 \<and> (2::int) \<le> 9 \<and> (2::int) - 1 < int (length (classes example_session))"
    by simp
  from t [of _ _ 2] p2
  have x: "handleClassKey 2 example_app = Done (state_of (labelImage (2 - 1) example_app))
      \<and> (\<forall>cur. currentImage example_app = Some cur \<longrightarrow>
            label (heap (state_of (handleClassKey 2 example_app)) cur) = Some (2 - 1))"
    by blast
  from x have h2: "handleClassKey 2 example_app = Done (state_of (labelImage 1 example_app))"
    by simp
  from x example_app_fields(1)
  have "label (heap (state_of (handleClassKey 2 example_app)) 0) = Some (2 - 1)" by blast
  then have l2: "label (heap (state_of (handleClassKey 2 example_app)) 0) = Some 1" by simp
  have p5: "(1::int) \<le> 5 \<and> (5::int) \<le> 9 \<and> int (length (classes example_session)) \<le> 5 - 1"
    by simp
  from t [of _ _ 5] p5
  have h5: "handleClassKey 5 example_app =
       Done (example_app\<lparr>effects := effects example_app @ [Toast (TClassNotDefined 5) Warning]\<rparr>)"
    by blast
  from t
  have "handleClassKey 0 example_app =
      Done (state_of (labelImage (min 9 (int (length (classes example_session)) - 1)) example_app))"
    by blast
  then have h0: "handleClassKey 0 example_app = Done (state_of (labelImage 1 example_app))"
    by simp
  have a1: "handle (key_press ''2'') example_app = state_of (labelImage 1 example_app)"
    unfolding key_press_def k2 h2 by simp
  have a2: "label (heap (handle (key_press ''2'') example_app) 0) = Some 1"
    unfolding key_press_def k2 using l2 .
  have b: "handle (key_press ''5'') example_app =
       example_app\<lparr>effects := effects example_app @ [Toast (TClassNotDefined 5) Warning]\<rparr>"
    unfolding key_press_def k5 h5 by simp
  have c: "handle (key_press ''0'') example_app = state_of (labelImage 1 example_app)"
    unfolding key_press_def k0 h0 by simp
  have "target_tagName ?ei = ''INPUT'' \<or> target_tagName ?ei = ''TEXTAREA''" by simp
  with t [of _ ?ei] have d: "handle (KeyDown ?ei) example_app = example_app" by blast
  have sc: "session ?oc = Some example_session" "session ?os = Some example_session"
    "session ?fm = Some example_session"
    by (simp_all add: example_app_session)
  have r2: "(0::int) \<le> 2 \<and> (2::int) \<le> 9 \<and> key ?e2 = number_key 2
      \<and> target_tagName ?e2 \<noteq> ''INPUT'' \<and> target_tagName ?e2 \<noteq> ''TEXTAREA''"
    by (simp add: number_key_def)
  note tc = class_key_labels_in_range [OF sc(1) len, of 2 ?e2]
  note ts = class_key_labels_in_range [OF sc(2) len, of 2 ?e2]
  note tf = class_key_labels_in_range [OF sc(3) len, of 2 ?e2]
  have oc: "activeOverlay ?oc = Some Commit" by simp
  from tc r2 oc have "handle (KeyDown ?e2) ?oc = ?oc" by blast
  then have e: "handle (key_press ''2'') ?oc = ?oc" unfolding key_press_def .
  have os: "activeOverlay ?os = Some Help \<or> activeOverlay ?os = Some Stats" by simp
  from ts r2 os have "handle (KeyDown ?e2) ?os = ?os\<lparr>activeOverlay := None\<rparr>" by blast
  then have f: "handle (key_press ''2'') ?os = ?os\<lparr>activeOverlay := None\<rparr>"
    unfolding key_press_def .
  have fm: "activeOverlay ?fm = None \<and> filterMode ?fm" using idle by simp
  from tf r2 fm have "heap (handle (KeyDown ?e2) ?fm) = heap ?fm" by blast
  then have g: "heap (handle (key_press ''2'') ?fm) = heap example_app"
    unfolding key_press_def by (simp del: handle.simps)
  from a1 a2 b c d e f g show ?thesis by blast
qed

text \<open>
  A number key that labels nothing although its class exists: key 1 labels the
  current image of the example with class 0, but after \<open>?\<close> has opened the help
  overlay it only closes the overlay, and after \<open>f\<close> has switched filter mode on it
  only sets the filter.
\<close>

theorem number_key_blocked_counterexample:
  "label (heap (run [key_press ''1''] example_app) 0) = Some 0
   \<and> activeOverlay (run [key_press ''?''] example_app) = Some Help
   \<and> label (heap (run [key_press ''?'', key_press ''1''] example_app) 0) = None
   \<and> activeOverlay (run [key_press ''?'', key_press ''1''] example_app) = None
   \<and> filterMode (run [key_press ''f''] example_app)
   \<and> label (heap (run [key_press ''f'', key_press ''1''] example_app) 0) = None
   \<and> \<not> filterMode (run [key_press ''f'', key_press ''1''] example_app)"
proof -
  have idle: "activeOverlay example_app = None" "\<not> filterMode example_app"
    by (simp_all add: example_app_def example_payload_def loadSession_resumed_def
        constructor_def js_index_def)
  have l0: "label (heap example_app 0) = None"
    by (simp add: example_app_heap)
  have one: "handle (key_press ''1'') example_app = state_of (labelImage 0 example_app)"
    using idle example_app_session
    by (simp add: key_press_def handleKeyDown_def main_shortcut_def digit_of_key_def
        handleClassKey_def not_awaited_def)
  have a: "label (heap (run [key_press ''1''] example_app) 0) = Some 0"
    using one example_app_fields(1) example_app_session
    by (simp add: labelImage_unfold del: handle.simps)
  have hp: "handle (key_press ''?'') example_app = example_app\<lparr>activeOverlay := Some Help\<rparr>"
    using idle
    by (simp add: key_press_def handleKeyDown_def main_shortcut_def digit_of_key_def
        toggleHelp_def openOverlay_def closeOverlay_def)
  have hp1: "handle (key_press ''1'') (example_app\<lparr>activeOverlay := Some Help\<rparr>) =
      example_app\<lparr>activeOverlay := Some Help, activeOverlay := None\<rparr>"
    by (simp add: key_press_def handleKeyDown_def closeOverlay_def)
  have filt: "handle (key_press ''f'') example_app =
      showToast TFilterMode Info (example_app\<lparr>filterMode := True\<rparr>)"
    using idle
    by (simp add: key_press_def handleKeyDown_def main_shortcut_def digit_of_key_def)
  have filt1: "heap (handle (key_press ''1'')
        (showToast TFilterMode Info (example_app\<lparr>filterMode := True\<rparr>))) = heap example_app"
    "\<not> filterMode (handle (key_press ''1'')
        (showToast TFilterMode Info (example_app\<lparr>filterMode := True\<rparr>)))"
    using idle example_app_session
    by (simp_all add: key_press_def handleKeyDown_def digit_of_key_def applyFilter_def
        showToast_def emit_def class_at_def js_index_def example_session_def)
  have b: "activeOverlay (run [key_press ''?''] example_app) = Some Help"
    by (simp add: hp del: handle.simps)
  have c: "label (heap (run [key_press ''?'', key_press ''1''] example_app) 0) = None"
    "activeOverlay (run [key_press ''?'', key_press ''1''] example_app) = None"
    using l0 by (simp_all add: hp hp1 del: handle.simps)
  have d: "filterMode (run [key_press ''f''] example_app)"
    by (simp add: filt showToast_def emit_def del: handle.simps)
  have e: "label (heap (run [key_press ''f'', key_press ''1''] example_app) 0) = None"
    "\<not> filterMode (run [key_press ''f'', key_press ''1''] example_app)"
    using l0 filt1 by (simp_all add: filt del: handle.simps)
  from a b c d e show ?thesis by blast
qed

section \<open>Reconciliation\<close>

lemma updateChangeCount_fields [simp]:
  "heap (updateChangeCount s) = heap s"
  "session (updateChangeCount s) = session s"
  "currentImage (updateChangeCount s) = currentImage s"
  "activeOverlay (updateChangeCount s) = activeOverlay s"
  "prefetchingImages (updateChangeCount s) = prefetchingImages s"
  "loading (updateChangeCount s) = loading s"
  "effects (updateChangeCount s) = effects s @ [ApiCall GetChangesCount]"
  by (simp_all add: updateChangeCount_def)

lemma find_cong_ids:
  "(\<And>x. x \<in> set xs \<Longrightarrow> P x = Q x) \<Longrightarrow> List.find P xs = List.find Q xs"
  by (induction xs) auto

lemma find_image_Some_D:
  "find_image s imgs i = Some r \<Longrightarrow> r \<in> set imgs \<and> img_id (heap s r) = i"
  by (auto simp: find_image_def find_Some_iff)

text \<open>An update of the label fields of one object does not change what \<open>find\<close> returns.\<close>

lemma find_image_after_update:
  "find_image
     (s\<lparr>heap := (heap s)(r := (heap s r)
          \<lparr>label := l, class_name := n, marked_for_deletion := m\<rparr>)\<rparr>) imgs i =
   find_image s imgs i"
  unfolding find_image_def by (rule find_cong_ids) simp

lemma handleImageLabeled_hit:
  assumes "session s = Some ses" and "find_image s (images ses) (lp_image_id p) = Some r"
  shows "handleImageLabeled p s =
     Done (updateChangeCount
       (s\<lparr>heap := (heap s)(r := (heap s r)
            \<lparr>label := lp_class_index p, class_name := lp_class_name p,
             marked_for_deletion := False\<rparr>)\<rparr>))"
  using assms by (simp add: handleImageLabeled_def)

lemma handleImageLabeled_miss:
  assumes "session s = Some ses" and "find_image s (images ses) (lp_image_id p) = None"
  shows "handleImageLabeled p s = Done (updateChangeCount s)"
  using assms by (simp add: handleImageLabeled_def)

lemma handleImageDeleted_hit:
  assumes "session s = Some ses" and "find_image s (images ses) i = Some r"
  shows "handleImageDeleted i s =
     Done (updateChangeCount
       (s\<lparr>heap := (heap s)(r := (heap s r)
            \<lparr>label := None, class_name := JNull, marked_for_deletion := True\<rparr>)\<rparr>))"
  using assms by (simp add: handleImageDeleted_def)

lemma handleImageDeleted_miss:
  assumes "session s = Some ses" and "find_image s (images ses) i = None"
  shows "handleImageDeleted i s = Done (updateChangeCount s)"
  using assms by (simp add: handleImageDeleted_def)

lemma find_image_updateChangeCount [simp]:
  "find_image (updateChangeCount s) imgs i = find_image s imgs i"
  by (simp add: find_image_def)

lemma handleImageLabeled_twice:
  "heap (state_of (andThen (handleImageLabeled p s) (handleImageLabeled p))) =
     heap (state_of (handleImageLabeled p s))
   \<and> session (state_of (andThen (handleImageLabeled p s) (handleImageLabeled p))) =
     session (state_of (handleImageLabeled p s))
   \<and> currentImage (state_of (andThen (handleImageLabeled p s) (handleImageLabeled p))) =
     currentImage (state_of (handleImageLabeled p s))"
proof (cases "session s")
  case None
  then show ?thesis by (simp add: handleImageLabeled_def)
next
  case (Some ses)
  show ?thesis
  proof (cases "find_image s (images ses) (lp_image_id p)")
    case None
    note first = handleImageLabeled_miss [OF Some None]
    have "handleImageLabeled p (updateChangeCount s) =
        Done (updateChangeCount (updateChangeCount s))"
      by (rule handleImageLabeled_miss [where ses = ses]) (simp_all add: Some None)
    with first show ?thesis by simp
  next
    case (Some r)
    let ?t = "s\<lparr>heap := (heap s)(r := (heap s r)
            \<lparr>label := lp_class_index p, class_name := lp_class_name p,
             marked_for_deletion := False\<rparr>)\<rparr>"
    note first = handleImageLabeled_hit [OF \<open>session s = Some ses\<close> Some]
    have f: "find_image (updateChangeCount ?t) (images ses) (lp_image_id p) = Some r"
      by (simp add: find_image_after_update Some)
    have "handleImageLabeled p (updateChangeCount ?t) =
        Done (updateChangeCount
          ((updateChangeCount ?t)\<lparr>heap := (heap (updateChangeCount ?t))
             (r := (heap (updateChangeCount ?t) r)
                \<lparr>label := lp_class_index p, class_name := lp_class_name p,
                 marked_for_deletion := False\<rparr>)\<rparr>))"
      by (rule handleImageLabeled_hit [where ses = ses, OF _ f])
         (simp add: \<open>session s = Some ses\<close>)
    with first show ?thesis by (simp add: \<open>session s = Some ses\<close>)
  qed
qed

lemma handleImageDeleted_twice:
  "heap (state_of (andThen (handleImageDeleted i s) (handleImageDeleted i))) =
     heap (state_of (handleImageDeleted i s))
   \<and> session (state_of (andThen (handleImageDeleted i s) (handleImageDeleted i))) =
     session (state_of (handleImageDeleted i s))
   \<and> currentImage (state_of (andThen (handleImageDeleted i s) (handleImageDeleted i))) =
     currentImage (state_of (handleImageDeleted i s))"
proof (cases "session s")
  case None
  then show ?thesis by (simp add: handleImageDeleted_def)
next
  case (Some ses)
  show ?thesis
  proof (cases "find_image s (images ses) i")
    case None
    note first = handleImageDeleted_miss [OF Some None]
    have "handleImageDeleted i (updateChangeCount s) =
        Done (updateChangeCount (updateChangeCount s))"
      by (rule handleImageDeleted_miss [where ses = ses]) (simp_all add: Some None)
    with first show ?thesis by simp
  next
    case (Some r)
    let ?t = "s\<lparr>heap := (heap s)(r := (heap s r)
            \<lparr>label := None, class_name := JNull, marked_for_deletion := True\<rparr>)\<rparr>"
    note first = handleImageDeleted_hit [OF \<open>session s = Some ses\<close> Some]
    have f: "find_image (updateChangeCount ?t) (images ses) i = Some r"
      by (simp add: find_image_after_update Some)
    have "handleImageDeleted i (updateChangeCount ?t) =
        Done (updateChangeCount
          ((updateChangeCount ?t)\<lparr>heap := (heap (updateChangeCount ?t))
             (r := (heap (updateChangeCount ?t) r)
                \<lparr>label := None, class_name := JNull, marked_for_deletion := True\<rparr>)\<rparr>))"
      by (rule handleImageDeleted_hit [where ses = ses, OF _ f])
         (simp add: \<open>session s = Some ses\<close>)
    with first show ?thesis by (simp add: \<open>session s = Some ses\<close>)
  qed
qed

text \<open>
  C3. Applying \<open>handleImageLabeled\<close> a second time with the same payload changes
  neither the store of image objects nor the session nor the current image (only one
  more change-count request is logged), whatever the replica held before; without a
  session both applications throw and change nothing. After one application the first
  image with the payload's identifier carries exactly the server's class index and
  class name and is not marked for deletion, and every other object is untouched. The
  same holds for \<open>handleImageDeleted\<close>, whose target ends up marked for deletion with
  label and class name \<open>null\<close>.
\<close>

theorem reconciliation_idempotent:
  "(heap (state_of (andThen (handleImageLabeled p s) (handleImageLabeled p))) =
      heap (state_of (handleImageLabeled p s))
    \<and> session (state_of (andThen (handleImageLabeled p s) (handleImageLabeled p))) =
      session (state_of (handleImageLabeled p s))
    \<and> currentImage (state_of (andThen (handleImageLabeled p s) (handleImageLabeled p))) =
      currentImage (state_of (handleImageLabeled p s)))
   \<and> (heap (state_of (andThen (handleImageDeleted i s) (handleImageDeleted i))) =
      heap (state_of (handleImageDeleted i s))
    \<and> session (state_of (andThen (handleImageDeleted i s) (handleImageDeleted i))) =
      session (state_of (handleImageDeleted i s))
    \<and> currentImage (state_of (andThen (handleImageDeleted i s) (handleImageDeleted i))) =
      currentImage (state_of (handleImageDeleted i s)))
   \<and> (session s = Some ses \<and> find_image s (images ses) (lp_image_id p) = Some r \<longrightarrow>
        label (heap (state_of (handleImageLabeled p s)) r) = lp_class_index p
        \<and> class_name (heap (state_of (handleImageLabeled p s)) r) = lp_class_name p
        \<and> marked_for_deletion (heap (state_of (handleImageLabeled p s)) r) = False
        \<and> img_id (heap (state_of (handleImageLabeled p s)) r) = lp_image_id p
        \<and> (\<forall>x. x \<noteq> r \<longrightarrow> heap (state_of (handleImageLabeled p s)) x = heap s x))
   \<and> (session s = Some ses \<and> find_image s (images ses) i = Some r' \<longrightarrow>
        label (heap (state_of (handleImageDeleted i s)) r') = None
        \<and> class_name (heap (state_of (handleImageDeleted i s)) r') = JNull
        \<and> marked_for_deletion (heap (state_of (handleImageDeleted i s)) r') = True
        \<and> img_id (heap (state_of (handleImageDeleted i s)) r') = i
        \<and> (\<forall>x. x \<noteq> r' \<longrightarrow> heap (state_of (handleImageDeleted i s)) x = heap s x))"
proof -
  have a: "session s = Some ses \<and> find_image s (images ses) (lp_image_id p) = Some r \<longrightarrow>
        label (heap (state_of (handleImageLabeled p s)) r) = lp_class_index p
        \<and> class_name (heap (state_of (handleImageLabeled p s)) r) = lp_class_name p
        \<and> marked_for_deletion (heap (state_of (handleImageLabeled p s)) r) = False
        \<and> img_id (heap (state_of (handleImageLabeled p s)) r) = lp_image_id p
        \<and> (\<forall>x. x \<noteq> r \<longrightarrow> heap (state_of (handleImageLabeled p s)) x = heap s x)"
    using find_image_Some_D [of s "images ses" "lp_image_id p" r]
    by (auto simp: handleImageLabeled_hit)
  have b: "session s = Some ses \<and> find_image s (images ses) i = Some r' \<longrightarrow>
        label (heap (state_of (handleImageDeleted i s)) r') = None
        \<and> class_name (heap (state_of (handleImageDeleted i s)) r') = JNull
        \<and> marked_for_deletion (heap (state_of (handleImageDeleted i s)) r') = True
        \<and> img_id (heap (state_of (handleImageDeleted i s)) r') = i
        \<and> (\<forall>x. x \<noteq> r' \<longrightarrow> heap (state_of (handleImageDeleted i s)) x = heap s x)"
    using find_image_Some_D [of s "images ses" i r']
    by (auto simp: handleImageDeleted_hit)
  from handleImageLabeled_twice [of p s] handleImageDeleted_twice [of i s] a b
  show ?thesis by blast
qed

lemma example_find_b: "find_image example_app (images example_session) ''b.jpg'' = Some 1"
  by (simp add: find_image_def example_app_heap)

theorem reconciliation_idempotent_witness:
  "label (heap (state_of (handleImageLabeled dog_label_payload example_app)) 1) = Some 1
   \<and> class_name (heap (state_of (handleImageLabeled dog_label_payload example_app)) 1) =
       JString ''dog''
   \<and> marked_for_deletion (heap (state_of (handleImageLabeled dog_label_payload example_app)) 1)
       = False
   \<and> heap (state_of (andThen (handleImageLabeled dog_label_payload example_app)
                       (handleImageLabeled dog_label_payload))) =
     heap (state_of (handleImageLabeled dog_label_payload example_app))
   \<and> label (heap (state_of (handleImageDeleted ''b.jpg'' example_app)) 1) = None
   \<and> marked_for_deletion (heap (state_of (handleImageDeleted ''b.jpg'' example_app)) 1) = True"
proof -
  have f: "find_image example_app (images example_session) (lp_image_id dog_label_payload) = Some 1"
    using example_find_b by (simp add: dog_label_payload_def)
  note t = reconciliation_idempotent
    [of dog_label_payload example_app "''b.jpg''" example_session 1 1]
  from t example_app_session f example_find_b show ?thesis
    by (simp add: dog_label_payload_def)
qed

section \<open>Label and delete are mutually exclusive\<close>

lemma navigateToIndex_session:
  "session (state_of (navigateToIndex i s)) = session s
   \<or> (\<exists>ses. session s = Some ses
         \<and> session (state_of (navigateToIndex i s)) = Some (ses\<lparr>current_index := i\<rparr>))"
  by (simp add: navigateToIndex_def Let_def state_of_andThen updateFolderContext_def
      split: option.splits)

lemma navigateNext_session:
  "session (state_of (navigateNext s)) = session s
   \<or> (\<exists>ses j. session s = Some ses
         \<and> session (state_of (navigateNext s)) = Some (ses\<lparr>current_index := j\<rparr>))"
proof (cases "session s")
  case None
  then show ?thesis by (simp add: navigateNext_def)
next
  case (Some ses)
  let ?n = "min (current_index ses + 1) (int (length (images ses)) - 1)"
  show ?thesis
  proof (cases "length (images ses) = 0 \<or> ?n = current_index ses")
    case True
    with Some show ?thesis by (auto simp: navigateNext_def Let_def)
  next
    case False
    with Some have "navigateNext s = navigateToIndex ?n s"
      by (simp add: navigateNext_def Let_def)
    with navigateToIndex_session [of ?n s] Some show ?thesis by auto
  qed
qed

text \<open>Both invariants read only the store, the image list and the class list.\<close>

lemma invariants_transfer:
  assumes "heap t = heap s"
    and "session t = session s
         \<or> (\<exists>ses j. session s = Some ses \<and> session t = Some (ses\<lparr>current_index := j\<rparr>))"
  shows "label_delete_exclusive t = label_delete_exclusive s"
    and "labels_valid t = labels_valid s"
proof -
  from assms(2) have im: "map_option images (session t) = map_option images (session s)"
    and cl: "map_option classes (session t) = map_option classes (session s)"
    by auto
  show "label_delete_exclusive t = label_delete_exclusive s"
    using im assms(1)
    by (cases "session t"; cases "session s") (simp_all add: label_delete_exclusive_def)
  show "labels_valid t = labels_valid s"
    using im cl assms(1)
    by (cases "session t"; cases "session s")
       (simp_all add: labels_valid_def valid_class_index_def cong: option.case_cong)
qed

lemma exclusive_update:
  assumes "label_delete_exclusive s" and "\<not> (l \<noteq> None \<and> m)"
  shows "label_delete_exclusive
     (s\<lparr>heap := (heap s)(r := (heap s r)
          \<lparr>label := l, class_name := n, marked_for_deletion := m\<rparr>)\<rparr>)"
  using assms by (auto simp: label_delete_exclusive_def split: option.splits)

lemma labels_valid_update:
  assumes "labels_valid s" and "\<forall>ses. session s = Some ses \<longrightarrow> valid_class_index ses l"
  shows "labels_valid
     (s\<lparr>heap := (heap s)(r := (heap s r)
          \<lparr>label := l, class_name := n, marked_for_deletion := m\<rparr>)\<rparr>)"
  using assms by (auto simp: labels_valid_def split: option.splits)

lemma labelImage_state:
  "state_of (labelImage c s) = s
   \<or> (\<exists>cur ses. currentImage s = Some cur \<and> session s = Some ses
         \<and> state_of (labelImage c s) =
             sendWebSocketMessage (MsgLabel (img_id (heap s cur)) c)
               (state_of (navigateNext (label_locally c cur ses s))))"
proof (cases "currentImage s")
  case None
  then show ?thesis by (simp add: labelImage_def)
next
  case cur: (Some cur)
  show ?thesis
  proof (cases "session s")
    case None
    with cur show ?thesis by (simp add: labelImage_def)
  next
    case (Some ses)
    with cur labelImage_unfold [OF cur Some, of c] show ?thesis
      by (simp add: label_locally_def)
  qed
qed

lemma deleteImage_state:
  "state_of (deleteImage s) = s
   \<or> (\<exists>cur. currentImage s = Some cur
         \<and> state_of (deleteImage s) =
             sendWebSocketMessage (MsgDelete (img_id (heap s cur)))
               (state_of (navigateNext (delete_locally cur s))))"
proof (cases "currentImage s")
  case None
  then show ?thesis by (simp add: deleteImage_def)
next
  case (Some cur)
  with deleteImage_unfold [OF Some] show ?thesis by (simp add: delete_locally_def)
qed

lemma after_navigateNext:
  "label_delete_exclusive (sendWebSocketMessage m (state_of (navigateNext s))) =
     label_delete_exclusive s"
  "labels_valid (sendWebSocketMessage m (state_of (navigateNext s))) = labels_valid s"
  using navigateNext_session [of s]
  by (auto intro!: invariants_transfer)

lemma labelImage_exclusive:
  "label_delete_exclusive s \<Longrightarrow> label_delete_exclusive (state_of (labelImage c s))"
proof -
  assume v: "label_delete_exclusive s"
  from labelImage_state [of c s] show ?thesis
  proof (elim disjE exE conjE)
    assume "state_of (labelImage c s) = s"
    with v show ?thesis by simp
  next
    fix cur ses
    assume "state_of (labelImage c s) =
        sendWebSocketMessage (MsgLabel (img_id (heap s cur)) c)
          (state_of (navigateNext (label_locally c cur ses s)))"
    moreover have "label_delete_exclusive (label_locally c cur ses s)"
      unfolding label_locally_def by (rule exclusive_update [OF v]) simp
    ultimately show ?thesis by (simp add: after_navigateNext)
  qed
qed

lemma deleteImage_exclusive:
  "label_delete_exclusive s \<Longrightarrow> label_delete_exclusive (state_of (deleteImage s))"
proof -
  assume v: "label_delete_exclusive s"
  from deleteImage_state [of s] show ?thesis
  proof (elim disjE exE conjE)
    assume "state_of (deleteImage s) = s"
    with v show ?thesis by simp
  next
    fix cur
    assume "state_of (deleteImage s) =
        sendWebSocketMessage (MsgDelete (img_id (heap s cur)))
          (state_of (navigateNext (delete_locally cur s)))"
    moreover have "label_delete_exclusive (delete_locally cur s)"
      unfolding delete_locally_def by (rule exclusive_update [OF v]) simp
    ultimately show ?thesis by (simp add: after_navigateNext)
  qed
qed

lemma labelImage_labels_valid:
  "labels_valid s \<Longrightarrow> \<forall>ses. session s = Some ses \<longrightarrow> valid_class_index ses (Some c) \<Longrightarrow>
   labels_valid (state_of (labelImage c s))"
proof -
  assume v: "labels_valid s"
    and c: "\<forall>ses. session s = Some ses \<longrightarrow> valid_class_index ses (Some c)"
  from labelImage_state [of c s] show ?thesis
  proof (elim disjE exE conjE)
    assume "state_of (labelImage c s) = s"
    with v show ?thesis by simp
  next
    fix cur ses
    assume "state_of (labelImage c s) =
        sendWebSocketMessage (MsgLabel (img_id (heap s cur)) c)
          (state_of (navigateNext (label_locally c cur ses s)))"
    moreover have "labels_valid (label_locally c cur ses s)"
      unfolding label_locally_def by (rule labels_valid_update [OF v c])
    ultimately show ?thesis by (simp add: after_navigateNext)
  qed
qed

lemma deleteImage_labels_valid:
  "labels_valid s \<Longrightarrow> labels_valid (state_of (deleteImage s))"
proof -
  assume v: "labels_valid s"
  from deleteImage_state [of s] show ?thesis
  proof (elim disjE exE conjE)
    assume "state_of (deleteImage s) = s"
    with v show ?thesis by simp
  next
    fix cur
    assume "state_of (deleteImage s) =
        sendWebSocketMessage (MsgDelete (img_id (heap s cur)))
          (state_of (navigateNext (delete_locally cur s)))"
    moreover have "labels_valid (delete_locally cur s)"
      unfolding delete_locally_def
      by (rule labels_valid_update [OF v]) (simp add: valid_class_index_def)
    ultimately show ?thesis by (simp add: after_navigateNext)
  qed
qed

lemma updateChangeCount_invariants [simp]:
  "label_delete_exclusive (updateChangeCount s) = label_delete_exclusive s"
  "labels_valid (updateChangeCount s) = labels_valid s"
  by (auto intro!: invariants_transfer)

lemma handleImageLabeled_exclusive:
  "label_delete_exclusive s \<Longrightarrow> label_delete_exclusive (state_of (handleImageLabeled p s))"
  by (cases "session s"; cases "find_image s (images (the (session s))) (lp_image_id p)")
     (simp_all add: handleImageLabeled_def exclusive_update)

lemma handleImageDeleted_exclusive:
  "label_delete_exclusive s \<Longrightarrow> label_delete_exclusive (state_of (handleImageDeleted i s))"
  by (cases "session s"; cases "find_image s (images (the (session s))) i")
     (simp_all add: handleImageDeleted_def exclusive_update)

lemma handleImageLabeled_labels_valid:
  "labels_valid s \<Longrightarrow>
   \<forall>ses. session s = Some ses \<longrightarrow> valid_class_index ses (lp_class_index p) \<Longrightarrow>
   labels_valid (state_of (handleImageLabeled p s))"
  by (cases "session s"; cases "find_image s (images (the (session s))) (lp_image_id p)")
     (simp_all add: handleImageLabeled_def labels_valid_update)

lemma handleImageDeleted_labels_valid:
  "labels_valid s \<Longrightarrow> labels_valid (state_of (handleImageDeleted i s))"
  by (cases "session s"; cases "find_image s (images (the (session s))) i")
     (simp_all add: handleImageDeleted_def labels_valid_update valid_class_index_def)

text \<open>
  C2, as the code has it. Each of the four operations keeps the invariant that no image
  of the session is both labelled and marked for deletion. \<open>deleteImage\<close> and
  \<open>handleImageDeleted\<close> also keep every label a valid class index or \<open>null\<close>;
  \<open>labelImage\<close> keeps it when the class index it is given is valid, and
  \<open>handleImageLabeled\<close> when the class index of the broadcast is \<open>null\<close> or valid: the
  replica stores either value without checking it against the class list.
\<close>

theorem label_delete_exclusive_preserved:
  "(label_delete_exclusive s \<longrightarrow>
      label_delete_exclusive (state_of (labelImage c s))
      \<and> label_delete_exclusive (state_of (deleteImage s))
      \<and> label_delete_exclusive (state_of (handleImageLabeled p s))
      \<and> label_delete_exclusive (state_of (handleImageDeleted i s)))
   \<and> (labels_valid s \<longrightarrow>
      labels_valid (state_of (deleteImage s))
      \<and> labels_valid (state_of (handleImageDeleted i s))
      \<and> ((\<forall>ses. session s = Some ses \<longrightarrow> valid_class_index ses (Some c)) \<longrightarrow>
            labels_valid (state_of (labelImage c s)))
      \<and> ((\<forall>ses. session s = Some ses \<longrightarrow> valid_class_index ses (lp_class_index p)) \<longrightarrow>
            labels_valid (state_of (handleImageLabeled p s))))"
  using labelImage_exclusive deleteImage_exclusive handleImageLabeled_exclusive
    handleImageDeleted_exclusive labelImage_labels_valid deleteImage_labels_valid
    handleImageLabeled_labels_valid handleImageDeleted_labels_valid
  by blast

lemma example_app_invariants:
  "label_delete_exclusive example_app" "labels_valid example_app"
  by (simp_all add: label_delete_exclusive_def labels_valid_def example_app_session
      example_app_heap valid_class_index_def)

lemma example_find_a: "find_image example_app (images example_session) ''a.jpg'' = Some 0"
  by (simp add: find_image_def example_app_heap)

theorem label_delete_exclusive_preserved_witness:
  "label_delete_exclusive (state_of (labelImage 1 example_app))
   \<and> label_delete_exclusive (state_of (deleteImage example_app))
   \<and> label_delete_exclusive (state_of (handleImageLabeled dog_label_payload example_app))
   \<and> label_delete_exclusive (state_of (handleImageDeleted ''b.jpg'' example_app))
   \<and> labels_valid (state_of (deleteImage example_app))
   \<and> labels_valid (state_of (handleImageDeleted ''b.jpg'' example_app))
   \<and> labels_valid (state_of (labelImage 1 example_app))
   \<and> labels_valid (state_of (handleImageLabeled dog_label_payload example_app))"
proof -
  have v1: "\<forall>ses. session example_app = Some ses \<longrightarrow> valid_class_index ses (Some 1)"
    by (simp add: example_app_session valid_class_index_def)
  have v2: "\<forall>ses. session example_app = Some ses \<longrightarrow>
      valid_class_index ses (lp_class_index dog_label_payload)"
    by (simp add: example_app_session valid_class_index_def dog_label_payload_def)
  from label_delete_exclusive_preserved [of example_app 1 dog_label_payload "''b.jpg''"]
    example_app_invariants v1 v2
  show ?thesis by blast
qed

text \<open>
  The claim as stated fails: a broadcast whose class index is outside the class list is
  stored as it comes.
\<close>

theorem stray_label_counterexample:
  "labels_valid example_app
   \<and> label (heap (state_of (handleImageLabeled stray_label_payload example_app)) 0) = Some 7
   \<and> length (classes example_session) = 2
   \<and> \<not> labels_valid (state_of (handleImageLabeled stray_label_payload example_app))"
proof -
  have f: "find_image example_app (images example_session) (lp_image_id stray_label_payload) = Some 0"
    using example_find_a by (simp add: stray_label_payload_def)
  note h = handleImageLabeled_hit [OF example_app_session f]
  have l: "label (heap (state_of (handleImageLabeled stray_label_payload example_app)) 0) = Some 7"
    unfolding h by (simp add: stray_label_payload_def)
  have s: "session (state_of (handleImageLabeled stray_label_payload example_app)) =
      Some example_session"
    by (simp add: h example_app_session)
  have "\<not> labels_valid (state_of (handleImageLabeled stray_label_payload example_app))"
    unfolding labels_valid_def s using l
    by (auto simp: valid_class_index_def intro!: bexI [of _ 0])
  with l example_app_invariants(2) show ?thesis by simp
qed

section \<open>Optimistic updates\<close>

lemma prefetchImage_effects_grow: "\<exists>es. effects (prefetchImage i s) = effects s @ es"
  by (simp add: prefetchImage_def start_image_load_def)

lemma fold_prefetchImage_effects_grow:
  "\<exists>es. effects (fold prefetchImage ids s) = effects s @ es"
proof (induction ids arbitrary: s)
  case Nil
  then show ?case by simp
next
  case (Cons i ids)
  obtain es1 where "effects (prefetchImage i s) = effects s @ es1"
    using prefetchImage_effects_grow by blast
  moreover obtain es2 where
    "effects (fold prefetchImage ids (prefetchImage i s)) = effects (prefetchImage i s) @ es2"
    using Cons.IH by blast
  ultimately show ?case by simp
qed

lemma prefetchImages_effects_grow:
  "\<exists>es. effects (state_of (prefetchImages s)) = effects s @ es"
  using prefetchImages_is_fold [of s] fold_prefetchImage_effects_grow [of _ s] by auto

lemma navigateToIndex_effects_grow:
  "\<exists>es. effects (state_of (navigateToIndex i s)) = effects s @ es"
proof (cases "session s")
  case None
  then show ?thesis by (simp add: navigateToIndex_def)
next
  case (Some ses)
  show ?thesis
  proof (cases "i < 0 \<or> int (length (images ses)) \<le> i")
    case True
    with Some show ?thesis by (auto simp: navigateToIndex_def)
  next
    case False
    let ?s1 = "updateUI (s\<lparr>session := Some (ses\<lparr>current_index := i\<rparr>),
                            currentImage := js_index (images ses) i\<rparr>)"
    obtain es where es: "effects (state_of (prefetchImages ?s1)) = effects ?s1 @ es"
      using prefetchImages_effects_grow by blast
    have w: "ws (state_of (prefetchImages ?s1)) = ws s" by simp
    from False Some es show ?thesis
      by (simp add: navigateToIndex_def Let_def state_of_andThen updateFolderContext_def
          split: option.splits)
  qed
qed

lemma navigateNext_effects_grow:
  "\<exists>es. effects (state_of (navigateNext s)) = effects s @ es"
  using navigateToIndex_effects_grow
  by (simp add: navigateNext_def Let_def split: option.splits)

lemma label_locally_fields [simp]:
  "session (label_locally c cur ses s) = session s"
  "currentImage (label_locally c cur ses s) = currentImage s"
  "ws (label_locally c cur ses s) = ws s"
  "effects (label_locally c cur ses s) = effects s"
  "heap (label_locally c cur ses s) =
     (heap s)(cur := (heap s cur)
        \<lparr>label := Some c, class_name := class_at (classes ses) c,
         marked_for_deletion := False\<rparr>)"
  by (simp_all add: label_locally_def)

lemma delete_locally_fields [simp]:
  "session (delete_locally cur s) = session s"
  "currentImage (delete_locally cur s) = currentImage s"
  "ws (delete_locally cur s) = ws s"
  "effects (delete_locally cur s) = effects s"
  "heap (delete_locally cur s) =
     (heap s)(cur := (heap s cur)
        \<lparr>label := None, class_name := JNull, marked_for_deletion := True\<rparr>)"
  by (simp_all add: delete_locally_def)

text \<open>What one optimistic step does, for any local mutation \<open>s1\<close> of \<open>s\<close> and message \<open>m\<close>.\<close>

lemma mutate_navigate_send:
  assumes "ws s1 = ws s" and "effects s1 = effects s"
  shows "\<exists>t es. navigateNext s1 = Done t
          \<and> effects t = effects s @ es
          \<and> heap (sendWebSocketMessage m t) = heap s1
          \<and> effects (sendWebSocketMessage m t) =
              effects s @ es @ (if ws s = Some OPEN then [WsSend m] else [])"
proof -
  obtain t where t: "navigateNext s1 = Done t"
    using navigateNext_returns [of s1] by (auto simp: returns_Done_iff)
  then have st: "state_of (navigateNext s1) = t" by simp
  obtain es where es: "effects t = effects s1 @ es"
    using navigateNext_effects_grow [of s1] st by auto
  have "ws t = ws s1" "heap t = heap s1"
    using navigateNext_fields(3) [of s1] navigateNext_fields(1) [of s1] st by simp_all
  with t es assms show ?thesis by simp
qed

text \<open>
  C1, as the code has it. With a current image (and, for \<open>labelImage\<close>, a session),
  the call first mutates the current image object in the local store, which by itself
  emits nothing; then \<open>navigateNext\<close> runs on the mutated state; then the intent
  message is handed to the socket as the last effect of the call, and the call
  returns without waiting for anything. The message is sent only when the socket is
  open: otherwise it is dropped, and the local mutation stays. The cursor moves as
  \<open>navigateNext\<close> moves it: from a valid position to the next one, staying on the last
  image when there is no next one. \<open>deleteImage\<close> does the same with
  \<open>marked_for_deletion\<close> true and label and class name \<open>null\<close>.
\<close>

theorem optimistic_update_then_send:
  assumes "currentImage s = Some cur" and "session s = Some ses"
  shows "(\<exists>t es. navigateNext (label_locally c cur ses s) = Done t
            \<and> labelImage c s = Done (sendWebSocketMessage (MsgLabel (img_id (heap s cur)) c) t)
            \<and> effects (label_locally c cur ses s) = effects s
            \<and> effects t = effects s @ es
            \<and> effects (state_of (labelImage c s)) =
                effects s @ es @
                (if ws s = Some OPEN then [WsSend (MsgLabel (img_id (heap s cur)) c)] else []))
       \<and> heap (state_of (labelImage c s)) =
           (heap s)(cur := (heap s cur)
              \<lparr>label := Some c, class_name := class_at (classes ses) c,
               marked_for_deletion := False\<rparr>)
       \<and> (\<exists>t es. navigateNext (delete_locally cur s) = Done t
            \<and> deleteImage s = Done (sendWebSocketMessage (MsgDelete (img_id (heap s cur))) t)
            \<and> effects (delete_locally cur s) = effects s
            \<and> effects t = effects s @ es
            \<and> effects (state_of (deleteImage s)) =
                effects s @ es @
                (if ws s = Some OPEN then [WsSend (MsgDelete (img_id (heap s cur)))] else []))
       \<and> heap (state_of (deleteImage s)) =
           (heap s)(cur := (heap s cur)
              \<lparr>label := None, class_name := JNull, marked_for_deletion := True\<rparr>)
       \<and> (images ses \<noteq> [] \<and> 0 \<le> current_index ses
            \<and> current_index ses < int (length (images ses)) \<longrightarrow>
          session (state_of (labelImage c s)) =
            Some (ses\<lparr>current_index :=
                    min (current_index ses + 1) (int (length (images ses)) - 1)\<rparr>)
          \<and> session (state_of (deleteImage s)) =
            Some (ses\<lparr>current_index :=
                    min (current_index ses + 1) (int (length (images ses)) - 1)\<rparr>))"
proof -
  let ?l = "label_locally c cur ses s" and ?d = "delete_locally cur s"
  let ?ml = "MsgLabel (img_id (heap s cur)) c" and ?md = "MsgDelete (img_id (heap s cur))"
  have lu: "labelImage c s = Done (sendWebSocketMessage ?ml (state_of (navigateNext ?l)))"
    using labelImage_unfold [OF assms, of c] by (simp add: label_locally_def)
  have du: "deleteImage s = Done (sendWebSocketMessage ?md (state_of (navigateNext ?d)))"
    using deleteImage_unfold [OF assms(1)] by (simp add: delete_locally_def)
  obtain t es where t: "navigateNext ?l = Done t" "effects t = effects s @ es"
      "heap (sendWebSocketMessage ?ml t) = heap ?l"
      "effects (sendWebSocketMessage ?ml t) =
         effects s @ es @ (if ws s = Some OPEN then [WsSend ?ml] else [])"
    using mutate_navigate_send [of ?l s ?ml] by auto
  obtain u fs where u: "navigateNext ?d = Done u" "effects u = effects s @ fs"
      "heap (sendWebSocketMessage ?md u) = heap ?d"
      "effects (sendWebSocketMessage ?md u) =
         effects s @ fs @ (if ws s = Some OPEN then [WsSend ?md] else [])"
    using mutate_navigate_send [of ?d s ?md] by auto
  have a: "\<exists>t es. navigateNext ?l = Done t
            \<and> labelImage c s = Done (sendWebSocketMessage ?ml t)
            \<and> effects ?l = effects s
            \<and> effects t = effects s @ es
            \<and> effects (state_of (labelImage c s)) =
                effects s @ es @ (if ws s = Some OPEN then [WsSend ?ml] else [])"
    using lu t by (intro exI [of _ t] exI [of _ es]) simp
  have b: "heap (state_of (labelImage c s)) =
           (heap s)(cur := (heap s cur)
              \<lparr>label := Some c, class_name := class_at (classes ses) c,
               marked_for_deletion := False\<rparr>)"
    using lu t by simp
  have a': "\<exists>t es. navigateNext ?d = Done t
            \<and> deleteImage s = Done (sendWebSocketMessage ?md t)
            \<and> effects ?d = effects s
            \<and> effects t = effects s @ es
            \<and> effects (state_of (deleteImage s)) =
                effects s @ es @ (if ws s = Some OPEN then [WsSend ?md] else [])"
    using du u by (intro exI [of _ u] exI [of _ fs]) simp
  have b': "heap (state_of (deleteImage s)) =
           (heap s)(cur := (heap s cur)
              \<lparr>label := None, class_name := JNull, marked_for_deletion := True\<rparr>)"
    using du u by simp
  have c: "images ses \<noteq> [] \<and> 0 \<le> current_index ses
            \<and> current_index ses < int (length (images ses)) \<longrightarrow>
          session (state_of (labelImage c s)) =
            Some (ses\<lparr>current_index :=
                    min (current_index ses + 1) (int (length (images ses)) - 1)\<rparr>)
          \<and> session (state_of (deleteImage s)) =
            Some (ses\<lparr>current_index :=
                    min (current_index ses + 1) (int (length (images ses)) - 1)\<rparr>)"
  proof (intro impI, elim conjE)
    assume v: "images ses \<noteq> []" "0 \<le> current_index ses"
      "current_index ses < int (length (images ses))"
    have sl: "session ?l = Some ses" and sd: "session ?d = Some ses"
      using assms(2) by simp_all
    from navigateNext_valid(2) [OF sl v] navigateNext_valid(2) [OF sd v] lu du
    show "session (state_of (labelImage c s)) =
            Some (ses\<lparr>current_index :=
                    min (current_index ses + 1) (int (length (images ses)) - 1)\<rparr>)
          \<and> session (state_of (deleteImage s)) =
            Some (ses\<lparr>current_index :=
                    min (current_index ses + 1) (int (length (images ses)) - 1)\<rparr>)"
      by simp
  qed
  from a b a' b' c show ?thesis by blast
qed

theorem optimistic_update_then_send_witness:
  "heap (state_of (labelImage 1 example_app)) =
      (heap example_app)(0 := (heap example_app 0)
         \<lparr>label := Some 1, class_name := JString ''dog'', marked_for_deletion := False\<rparr>)
   \<and> session (state_of (labelImage 1 example_app)) =
       Some (example_session\<lparr>current_index := 1\<rparr>)
   \<and> (\<exists>es. effects (state_of (labelImage 1 example_app)) =
              es @ [WsSend (MsgLabel ''a.jpg'' 1)])
   \<and> heap (state_of (deleteImage example_app)) =
      (heap example_app)(0 := (heap example_app 0)
         \<lparr>label := None, class_name := JNull, marked_for_deletion := True\<rparr>)
   \<and> (\<exists>es. effects (state_of (deleteImage example_app)) = es @ [WsSend (MsgDelete ''a.jpg'')])"
proof -
  note t = optimistic_update_then_send [OF example_app_fields(1) example_app_session, of 1]
  have ca: "class_at [''cat'', ''dog''] 1 = JString ''dog''"
    by (simp add: class_at_def js_index_def)
  have rng: "images example_session \<noteq> [] \<and> 0 \<le> current_index example_session
      \<and> current_index example_session < int (length (images example_session))"
    by simp
  from t have h1: "heap (state_of (labelImage 1 example_app)) =
      (heap example_app)(0 := (heap example_app 0)
         \<lparr>label := Some 1, class_name := JString ''dog'', marked_for_deletion := False\<rparr>)"
    by (simp add: ca)
  from t have h2: "heap (state_of (deleteImage example_app)) =
      (heap example_app)(0 := (heap example_app 0)
         \<lparr>label := None, class_name := JNull, marked_for_deletion := True\<rparr>)"
    by blast
  from t rng have "session (state_of (labelImage 1 example_app)) =
      Some (example_session\<lparr>current_index :=
         min (current_index example_session + 1) (int (length (images example_session)) - 1)\<rparr>)"
    by blast
  then have s1: "session (state_of (labelImage 1 example_app)) =
       Some (example_session\<lparr>current_index := 1\<rparr>)"
    by simp
  from t obtain es where "effects (state_of (labelImage 1 example_app)) =
      effects example_app @ es @
      (if ws example_app = Some OPEN
       then [WsSend (MsgLabel (img_id (heap example_app 0)) 1)] else [])"
    by blast
  then have e1: "\<exists>es. effects (state_of (labelImage 1 example_app)) =
              es @ [WsSend (MsgLabel ''a.jpg'' 1)]"
    by (simp add: example_app_fields example_app_heap)
  from t obtain fs where "effects (state_of (deleteImage example_app)) =
      effects example_app @ fs @
      (if ws example_app = Some OPEN
       then [WsSend (MsgDelete (img_id (heap example_app 0)))] else [])"
    by blast
  then have e2: "\<exists>es. effects (state_of (deleteImage example_app)) =
      es @ [WsSend (MsgDelete ''a.jpg'')]"
    by (simp add: example_app_fields example_app_heap)
  from h1 s1 e1 h2 e2 show ?thesis by blast
qed

text \<open>
  The claim as stated fails on the last image of a replica whose socket is closed: the
  label is applied locally, the cursor stays where it is, and no message is sent.
\<close>

lemma offline_last_app_fields:
  "currentImage offline_last_app = Some 2"
  "session offline_last_app = Some (example_session\<lparr>current_index := 2\<rparr>)"
  "ws offline_last_app = Some CLOSED"
  "effects offline_last_app = []"
  by (simp_all add: offline_last_app_def example_app_fields)

theorem offline_label_counterexample:
  "currentImage offline_last_app = Some 2
   \<and> ws offline_last_app = Some CLOSED
   \<and> label (heap (state_of (labelImage 0 offline_last_app)) 2) = Some 0
   \<and> session (state_of (labelImage 0 offline_last_app)) = session offline_last_app
   \<and> effects (state_of (labelImage 0 offline_last_app)) = []"
proof -
  let ?l = "label_locally 0 2 (example_session\<lparr>current_index := 2\<rparr>) offline_last_app"
  have n: "navigateNext ?l = Done ?l"
    by (simp add: navigateNext_def offline_last_app_fields)
  have "labelImage 0 offline_last_app =
      Done (sendWebSocketMessage (MsgLabel (img_id (heap offline_last_app 2)) 0)
              (state_of (navigateNext ?l)))"
    using labelImage_unfold [OF offline_last_app_fields(1,2), of 0]
    by (simp add: label_locally_def)
  then have "state_of (labelImage 0 offline_last_app) = ?l"
    by (simp add: n sendWebSocketMessage_def offline_last_app_fields)
  then show ?thesis by (simp add: offline_last_app_fields)
qed

section \<open>The bounded image cache\<close>

lemma cleanImageCache_loop_length: "length (cleanImageCache_loop c) \<le> CACHE_MAX_SIZE"
proof (induction c rule: cleanImageCache_loop.induct)
  case (1 c)
  show ?case
  proof (cases "CACHE_MAX_SIZE < length c")
    case True
    with "1.IH" show ?thesis by (simp add: cleanImageCache_loop.simps [of c])
  next
    case False
    then show ?thesis by (simp add: cleanImageCache_loop.simps [of c])
  qed
qed

lemma cache_delete_head:
  "distinct (map fst (p # ps)) \<Longrightarrow> cache_delete (fst p) (p # ps) = ps"
proof -
  assume "distinct (map fst (p # ps))"
  then have np: "fst p \<notin> fst ` set ps" by simp
  have "\<forall>q \<in> set ps. fst q \<noteq> fst p"
  proof
    fix q
    assume "q \<in> set ps"
    then have "fst q \<in> fst ` set ps" by (rule imageI)
    with np show "fst q \<noteq> fst p" by metis
  qed
  then have "filter (\<lambda>q. fst q \<noteq> fst p) ps = ps" by (simp add: filter_id_conv)
  then show ?thesis by (simp add: cache_delete_def)
qed

text \<open>With distinct keys the loop drops a prefix: the entries inserted first.\<close>

lemma cleanImageCache_loop_drop:
  "distinct (map fst c) \<Longrightarrow> cleanImageCache_loop c = drop (length c - CACHE_MAX_SIZE) c"
proof (induction c rule: cleanImageCache_loop.induct)
  case (1 c)
  show ?case
  proof (cases "CACHE_MAX_SIZE < length c")
    case False
    then show ?thesis by (simp add: cleanImageCache_loop.simps [of c])
  next
    case True
    then obtain p ps where c: "c = p # ps" by (cases c) auto
    from "1.prems" c have d: "cache_delete (fst (hd c)) c = ps" and dps: "distinct (map fst ps)"
      using cache_delete_head [of p ps] by simp_all
    from True c have n: "length c - CACHE_MAX_SIZE = Suc (length ps - CACHE_MAX_SIZE)"
      by simp
    from True have "cleanImageCache_loop c = cleanImageCache_loop (cache_delete (fst (hd c)) c)"
      by (simp add: cleanImageCache_loop.simps [of c])
    also have "\<dots> = drop (length ps - CACHE_MAX_SIZE) ps"
      using "1.IH" [OF True] d dps by simp
    also have "\<dots> = drop (length c - CACHE_MAX_SIZE) c"
      unfolding n by (simp add: c)
    finally show ?thesis .
  qed
qed

lemma cache_set_present:
  "cache_has c k \<Longrightarrow> map fst (cache_set k v c) = map fst c"
  by (induction c) (auto simp: cache_has_def)

lemma cache_set_absent: "\<not> cache_has c k \<Longrightarrow> cache_set k v c = c @ [(k, v)]"
  by (induction c) (auto simp: cache_has_def)

lemma prefetchImages_guard:
  "session s = None \<or> (\<exists>ses. session s = Some ses \<and> images ses = []) \<Longrightarrow>
   prefetchImages s = Done s"
  by (auto simp: prefetchImages_def)

lemma prefetchImages_cleans:
  assumes "session s = Some ses" and "images ses \<noteq> []" and "returns (prefetchImages s)"
  shows "\<exists>u. state_of (prefetchImages s) = cleanImageCache u"
proof -
  let ?l = "prefetch_loop (current_index ses) 1 s"
  from assms have rl: "returns ?l" by (simp add: prefetchImages_def returns_andThen)
  show ?thesis
  proof (cases "0 < current_index ses")
    case False
    with assms(1,2) rl have "state_of (prefetchImages s) = cleanImageCache (state_of ?l)"
      by (simp add: prefetchImages_def state_of_andThen)
    then show ?thesis by blast
  next
    case True
    show ?thesis
    proof (cases "js_index (images ses) (current_index ses - 1)")
      case None
      with assms True rl show ?thesis
        by (simp add: prefetchImages_def returns_andThen)
    next
      case (Some r)
      with assms(1,2) True rl
      have "state_of (prefetchImages s) =
          cleanImageCache (prefetchImage (img_id (heap (state_of ?l) r)) (state_of ?l))"
        by (simp add: prefetchImages_def state_of_andThen)
      then show ?thesis by blast
    qed
  qed
qed

text \<open>
  C6, as the code has it. \<open>cleanImageCache\<close> leaves at most \<open>CACHE_MAX_SIZE = 10\<close>
  entries, and what it removes is a prefix of the map's insertion order: exactly the
  earliest-inserted entries in excess of the capacity, never a later one. Insertion
  order is not access order: storing under a key that is present keeps the key's
  position, and a new key goes to the end. A \<open>prefetchImages\<close> call that gets past its
  guard (a session with a non-empty image list) and returns ends with
  \<open>cleanImageCache\<close>, so the cache then holds at most 10 entries; a call that returns
  at the guard leaves the cache as it is.
\<close>

theorem cache_bounded_by_insertion_order:
  "CACHE_MAX_SIZE = 10
   \<and> imageCache (cleanImageCache s) = cleanImageCache_loop (imageCache s)
   \<and> length (cleanImageCache_loop c) \<le> CACHE_MAX_SIZE
   \<and> (distinct (map fst c) \<longrightarrow>
        cleanImageCache_loop c = drop (length c - CACHE_MAX_SIZE) c)
   \<and> (cache_has c k \<longrightarrow> map fst (cache_set k v c) = map fst c)
   \<and> (\<not> cache_has c k \<longrightarrow> cache_set k v c = c @ [(k, v)])
   \<and> (session s = Some ses \<and> images ses \<noteq> [] \<and> returns (prefetchImages s) \<longrightarrow>
        length (imageCache (state_of (prefetchImages s))) \<le> CACHE_MAX_SIZE)
   \<and> (session s = None \<or> (\<exists>ses. session s = Some ses \<and> images ses = []) \<longrightarrow>
        prefetchImages s = Done s)"
proof -
  have g: "session s = Some ses \<and> images ses \<noteq> [] \<and> returns (prefetchImages s) \<longrightarrow>
        length (imageCache (state_of (prefetchImages s))) \<le> CACHE_MAX_SIZE"
  proof (intro impI, elim conjE)
    assume "session s = Some ses" "images ses \<noteq> []" "returns (prefetchImages s)"
    then obtain u where "state_of (prefetchImages s) = cleanImageCache u"
      using prefetchImages_cleans by blast
    then show "length (imageCache (state_of (prefetchImages s))) \<le> CACHE_MAX_SIZE"
      by (simp add: cleanImageCache_def cleanImageCache_loop_length)
  qed
  show ?thesis
    using g cleanImageCache_loop_length [of c] cleanImageCache_loop_drop [of c]
      cache_set_present [of c k v] cache_set_absent [of c k v] prefetchImages_guard [of s]
    by (simp add: CACHE_MAX_SIZE_def cleanImageCache_def)
qed

lemma crowded_cache_facts:
  "distinct (map fst crowded_cache)" "length crowded_cache = 11"
  "cache_has crowded_cache ''c.jpg''" "\<not> cache_has crowded_cache ''z.jpg''"
  by (simp_all add: crowded_cache_def cache_has_def)

theorem cache_bounded_by_insertion_order_witness:
  "cleanImageCache_loop crowded_cache = drop 1 crowded_cache
   \<and> map fst (cache_set ''c.jpg'' (Img ''c.jpg'') crowded_cache) = map fst crowded_cache
   \<and> cache_set ''z.jpg'' (Img ''z.jpg'') crowded_cache = crowded_cache @ [(''z.jpg'', Img ''z.jpg'')]
   \<and> length (imageCache (state_of (prefetchImages (example_app\<lparr>imageCache := crowded_cache\<rparr>))))
       \<le> 10
   \<and> prefetchImages (constructor True) = Done (constructor True)"
proof -
  let ?s = "example_app\<lparr>imageCache := crowded_cache\<rparr>"
  have ses: "session ?s = Some example_session" by (simp add: example_app_session)
  have "prefetchImages ?s =
      Done (cleanImageCache (fold prefetchImage (prefetch_ids ?s example_session) ?s))"
    by (rule prefetchImages_closed [OF ses]) simp_all
  then have ret: "returns (prefetchImages ?s)" by simp
  have none: "session (constructor True) = None" by (simp add: constructor_def)
  note t = cache_bounded_by_insertion_order
    [of ?s crowded_cache "''c.jpg''" "Img ''c.jpg''" example_session]
  note t' = cache_bounded_by_insertion_order
    [of "constructor True" crowded_cache "''z.jpg''" "Img ''z.jpg''" example_session]
  from t crowded_cache_facts
  have a: "cleanImageCache_loop crowded_cache = drop 1 crowded_cache"
    by (simp add: CACHE_MAX_SIZE_def)
  from t crowded_cache_facts
  have b: "map fst (cache_set ''c.jpg'' (Img ''c.jpg'') crowded_cache) = map fst crowded_cache"
    by blast
  from t' crowded_cache_facts
  have c: "cache_set ''z.jpg'' (Img ''z.jpg'') crowded_cache =
      crowded_cache @ [(''z.jpg'', Img ''z.jpg'')]"
    by blast
  from t ses ret
  have d: "length (imageCache (state_of (prefetchImages ?s))) \<le> 10"
    by (simp add: CACHE_MAX_SIZE_def)
  from t' none have e: "prefetchImages (constructor True) = Done (constructor True)"
    by blast
  from a b c d e show ?thesis by blast
qed

text \<open>
  The claim as stated fails when the image list is empty: \<open>prefetchImages\<close> returns at
  its guard, and a cache that load callbacks have grown past the capacity stays so.
\<close>

theorem prefetch_guard_counterexample:
  "prefetchImages emptied_app = Done emptied_app
   \<and> length (imageCache (state_of (prefetchImages emptied_app))) = 11"
  by (simp add: prefetchImages_def emptied_app_def crowded_cache_def)

section \<open>What the handlers leave alone\<close>

lemma obs_emit [simp]: "e \<noteq> ApiCall PostCommit \<Longrightarrow> obs (emit e s) = obs s"
  by (simp add: obs_def emit_def commit_requests_def inflight_inv_def)

lemma obs_showToast [simp]: "obs (showToast m ty s) = obs s"
  by (simp add: showToast_def)

lemma obs_sendWebSocketMessage [simp]: "obs (sendWebSocketMessage m s) = obs s"
  by (simp add: sendWebSocketMessage_def)

lemma obs_updates [simp]:
  "obs (s\<lparr>heap := x1\<rparr>) = obs s"
  "obs (s\<lparr>heap_next := x2\<rparr>) = obs s"
  "obs (s\<lparr>session := x3\<rparr>) = obs s"
  "obs (s\<lparr>currentImage := x4\<rparr>) = obs s"
  "obs (s\<lparr>imageCache := x5\<rparr>) = obs s"
  "obs (s\<lparr>ws := x6\<rparr>) = obs s"
  "obs (s\<lparr>wsReconnectAttempt := x7\<rparr>) = obs s"
  "obs (s\<lparr>wsReconnectTimeout := x8\<rparr>) = obs s"
  "obs (s\<lparr>wsHeartbeatInterval := x9\<rparr>) = obs s"
  "obs (s\<lparr>commitPreview := x10\<rparr>) = obs s"
  "obs (s\<lparr>filterMode := x11\<rparr>) = obs s"
  "obs (s\<lparr>lastKey := x12\<rparr>) = obs s"
  "obs (s\<lparr>keyComboTimeout := x13\<rparr>) = obs s"
  "obs (s\<lparr>currentFolder := x14\<rparr>) = obs s"
  "obs (s\<lparr>subfolders := x15\<rparr>) = obs s"
  "obs (s\<lparr>hasFolders := x16\<rparr>) = obs s"
  "obs (s\<lparr>userChangesCount := x17\<rparr>) = obs s"
  "obs (s\<lparr>hasChanges := x18\<rparr>) = obs s"
  "obs (s\<lparr>displayLoading := x22\<rparr>) = obs s"
  "obs (s\<lparr>connectionStatusHidden := x19\<rparr>) = obs s"
  "obs (s\<lparr>timers := x20\<rparr>) = obs s"
  "obs (s\<lparr>timer_next := x21\<rparr>) = obs s"
  by (simp_all add: obs_def commit_requests_def inflight_inv_def)

lemma obs_displayCurrentImage [simp]: "obs (displayCurrentImage s) = obs s"
  by (simp add: displayCurrentImage_def Let_def split: option.splits)

lemma obs_updateUI [simp]: "obs (updateUI s) = obs s"
  by (simp add: updateUI_def)

lemma inflight_inv_prefetchImage: "inflight_inv (prefetchImage i s) = inflight_inv s"
proof (cases "cache_has (imageCache s) i \<or> i \<in> prefetchingImages s")
  case True
  then show ?thesis by (simp add: prefetchImage_def)
next
  case False
  then have n: "i \<notin> prefetchingImages s" by simp
  have "(distinct (loading s @ [i]) \<and> set (loading s @ [i]) = insert i (prefetchingImages s))
      = (distinct (loading s) \<and> set (loading s) = prefetchingImages s)"
    using n by auto
  with False show ?thesis
    by (simp add: prefetchImage_def start_image_load_def emit_def inflight_inv_def)
qed

lemma obs_prefetchImage [simp]: "obs (prefetchImage i s) = obs s"
proof -
  have "commit_requests (prefetchImage i s) = commit_requests s"
    by (simp add: prefetchImage_def start_image_load_def emit_def commit_requests_def)
  then show ?thesis by (simp add: obs_def inflight_inv_prefetchImage)
qed

lemma obs_fold_prefetchImage [simp]: "obs (fold prefetchImage ids s) = obs s"
  by (induction ids arbitrary: s) simp_all

lemma obs_cleanImageCache [simp]: "obs (cleanImageCache s) = obs s"
  by (simp add: cleanImageCache_def)

lemma obs_prefetchImages [simp]: "obs (state_of (prefetchImages s)) = obs s"
  using prefetchImages_is_fold [of s] by auto

lemma obs_setTimeout [simp]: "obs (snd (setTimeout cb d s)) = obs s"
  by (simp add: setTimeout_def)

lemma obs_clearTimeout [simp]: "obs (clearTimeout h s) = obs s"
  by (simp add: clearTimeout_def split: option.splits)

lemma obs_setInterval [simp]: "obs (snd (setInterval cb d s)) = obs s"
  by (simp add: setInterval_def)

lemma obs_clearInterval [simp]: "obs (clearInterval h s) = obs s"
  by (simp add: clearInterval_def)

lemma obs_updateFolderContext [simp]: "obs (updateFolderContext f s) = obs s"
  by (simp add: updateFolderContext_def)

lemma obs_navigateToIndex [simp]: "obs (state_of (navigateToIndex i s)) = obs s"
  by (simp add: navigateToIndex_def Let_def state_of_andThen split: option.splits)

lemma obs_navigateNext [simp]: "obs (state_of (navigateNext s)) = obs s"
  by (simp add: navigateNext_def Let_def split: option.splits)

lemma obs_navigatePrevious [simp]: "obs (state_of (navigatePrevious s)) = obs s"
  by (simp add: navigatePrevious_def Let_def split: option.splits)

lemma obs_navigateToFirstInFolder [simp]: "obs (state_of (navigateToFirstInFolder s)) = obs s"
  by (simp add: navigateToFirstInFolder_def split: option.splits)

lemma obs_navigateToLastInFolder [simp]: "obs (state_of (navigateToLastInFolder s)) = obs s"
  by (simp add: navigateToLastInFolder_def split: option.splits)

lemma obs_navigateToNextUnlabeled [simp]: "obs (state_of (navigateToNextUnlabeled s)) = obs s"
  by (simp add: navigateToNextUnlabeled_def split: option.splits sum.splits)

lemma obs_labelImage [simp]: "obs (state_of (labelImage c s)) = obs s"
  using labelImage_state [of c s] by (auto simp: label_locally_def)

lemma obs_deleteImage [simp]: "obs (state_of (deleteImage s)) = obs s"
  using deleteImage_state [of s] by (auto simp: delete_locally_def)

lemma obs_undoAction [simp]: "obs (undoAction s) = obs s"
  by (simp add: undoAction_def)

lemma obs_updateChangeCount [simp]: "obs (updateChangeCount s) = obs s"
  by (simp add: updateChangeCount_def)

lemma obs_handleImageLabeled [simp]: "obs (state_of (handleImageLabeled p s)) = obs s"
  by (simp add: handleImageLabeled_def split: option.splits)

lemma obs_handleImageDeleted [simp]: "obs (state_of (handleImageDeleted i s)) = obs s"
  by (simp add: handleImageDeleted_def split: option.splits)

lemma obs_handleStateUpdate [simp]: "obs (state_of (handleStateUpdate p s)) = obs s"
  by (simp add: handleStateUpdate_def Let_def split: option.splits)

lemma obs_handleUndoCompleted [simp]: "obs (state_of (handleUndoCompleted p s)) = obs s"
  by (simp add: handleUndoCompleted_def Let_def state_of_andThen split: option.splits)

lemma obs_handleServerError [simp]: "obs (handleServerError m s) = obs s"
  by (simp add: handleServerError_def)

lemma obs_handleClassKey [simp]: "obs (state_of (handleClassKey k s)) = obs s"
  by (simp add: handleClassKey_def Let_def not_awaited_def split: option.splits)

lemma obs_handleGKey [simp]: "obs (state_of (handleGKey s)) = obs s"
proof (cases "lastKey s = Some ''g''")
  case True
  then show ?thesis by (simp add: handleGKey_def)
next
  case False
  have "obs (snd (setTimeout KeyComboCb DOUBLE_KEY_TIMEOUT (s\<lparr>lastKey := Some ''g''\<rparr>))) = obs s"
    by simp
  with False show ?thesis
    by (simp add: handleGKey_def split_def Let_def)
qed

lemma obs_applyFilter [simp]: "obs (state_of (applyFilter n s)) = obs s"
  by (simp add: applyFilter_def split: option.splits jstring.splits)

lemma obs_navigateToFolder [simp]: "obs (navigateToFolder p s) = obs s"
  by (simp add: navigateToFolder_def)

lemma obs_navigateToNextFolder [simp]: "obs (state_of (navigateToNextFolder s)) = obs s"
  by (simp add: navigateToNextFolder_def Let_def split: option.splits)

lemma obs_navigateToPrevFolder [simp]: "obs (state_of (navigateToPrevFolder s)) = obs s"
  by (simp add: navigateToPrevFolder_def Let_def split: option.splits)

lemma obs_navigateToParentFolder [simp]: "obs (navigateToParentFolder s) = obs s"
  by (simp add: navigateToParentFolder_def)

lemma obs_scheduleReconnect [simp]: "obs (scheduleReconnect s) = obs s"
proof -
  have "obs (snd (setTimeout ReconnectCb d (showConnectionStatus s))) = obs s" for d
    by (simp add: showConnectionStatus_def)
  then show ?thesis by (simp add: scheduleReconnect_def Let_def split_def)
qed

lemma obs_connectWebSocket [simp]: "obs (connectWebSocket ok s) = obs s"
  by (simp add: connectWebSocket_def Let_def)

lemma obs_reconnect_callback [simp]: "obs (reconnect_callback ok s) = obs s"
  by (simp add: reconnect_callback_def)

lemma obs_stopHeartbeat [simp]: "obs (stopHeartbeat s) = obs s"
  by (simp add: stopHeartbeat_def)

lemma obs_startHeartbeat [simp]: "obs (startHeartbeat s) = obs s"
proof -
  have "obs (snd (setInterval HeartbeatCb WS_HEARTBEAT_INTERVAL (stopHeartbeat s))) = obs s"
    by simp
  then show ?thesis by (simp add: startHeartbeat_def split_def Let_def)
qed

lemma obs_heartbeat_callback [simp]: "obs (heartbeat_callback s) = obs s"
  by (simp add: heartbeat_callback_def)

lemma obs_ws_onopen [simp]: "obs (ws_onopen s) = obs s"
  by (simp add: ws_onopen_def hideConnectionStatus_def)

lemma obs_ws_onclose [simp]: "obs (ws_onclose s) = obs s"
  by (simp add: ws_onclose_def)

lemma obs_keycombo_callback [simp]: "obs (keycombo_callback s) = obs s"
  by (simp add: keycombo_callback_def)

lemma obs_fire_timer [simp]: "obs (fire_timer t ok s) = obs s"
  by (simp add: fire_timer_def split: option.splits timer_cb.splits)

lemma obs_loadSession_resumed [simp]: "obs (loadSession_resumed p s) = obs s"
  by (simp add: loadSession_resumed_def Let_def split: prod.splits)

lemma obs_loadSubfolders [simp]: "obs (loadSubfolders s) = obs s"
  by (simp add: loadSubfolders_def)

lemma obs_loadSubfolders_resumed [simp]: "obs (loadSubfolders_resumed r s) = obs s"
  by (simp add: loadSubfolders_resumed_def split: option.splits)

lemma obs_updateChangeCount_resumed [simp]: "obs (updateChangeCount_resumed r s) = obs s"
  by (simp add: updateChangeCount_resumed_def split: option.splits)

lemma obs_updateFolderContext_posted [simp]: "obs (updateFolderContext_posted ok s) = obs s"
  by (simp add: updateFolderContext_posted_def)

lemma obs_handleChangesCommitted_reloaded [simp]:
  "obs (handleChangesCommitted_reloaded r s) = obs s"
  by (simp add: handleChangesCommitted_reloaded_def split: option.splits)

lemma obs_navigateToFolder_posted [simp]: "obs (navigateToFolder_posted r s) = obs s"
  by (simp add: navigateToFolder_posted_def split: option.splits)

lemma obs_navigateToFolder_session [simp]: "obs (navigateToFolder_session r s) = obs s"
  by (simp add: navigateToFolder_session_def split: option.splits)

lemma obs_navigateToFolder_subfolders [simp]:
  "obs (navigateToFolder_subfolders p r s) = obs s"
  by (simp add: navigateToFolder_subfolders_def navigateToFolder_finish_def Let_def
      split: option.splits)

lemma obs_handleWebSocketMessage_other:
  "\<forall>p. m \<noteq> ChangesCommitted p \<Longrightarrow> obs (handleWebSocketMessage m s) = obs s"
  by (cases m) (simp_all add: handleWebSocketMessage_def)

section \<open>Steps of the event loop\<close>

lemma obs_activeOverlay_update [simp]: "obs (s\<lparr>activeOverlay := x\<rparr>) = (x, snd (obs s))"
  by (simp add: obs_def commit_requests_def inflight_inv_def)

lemma obs_closeOverlay [simp]: "obs (closeOverlay s) = (None, snd (obs s))"
  by (simp add: closeOverlay_def) (simp add: obs_def)

lemma obs_openOverlay [simp]: "obs (openOverlay n s) = (Some n, snd (obs s))"
  by (simp add: openOverlay_def)

lemma obs_executeCommit [simp]:
  "obs (executeCommit s) = (activeOverlay s, Suc (commit_requests s), inflight_inv s)"
  by (simp add: executeCommit_def obs_def emit_def commit_requests_def inflight_inv_def)

lemma fst_obs: "fst (obs s) = activeOverlay s"
  by (simp add: obs_def)

lemma snd_obs: "snd (obs s) = (commit_requests s, inflight_inv s)"
  by (simp add: obs_def)

lemma tame_refl [simp]: "tame s s"
  by (simp add: tame_def)

lemma tame_of_obs: "obs t = obs s \<Longrightarrow> tame s t"
  by (simp add: tame_def obs_def)

lemma tame_D:
  "tame s t \<Longrightarrow> commit_requests t = commit_requests s \<and> inflight_inv t = inflight_inv s
     \<and> (activeOverlay t = Some Commit \<longrightarrow> activeOverlay s = Some Commit)"
  by (simp add: tame_def obs_def)

lemma obs_showCommitModal [simp]: "obs (showCommitModal s) = obs s"
  by (simp add: showCommitModal_def)

lemma tame_toggleHelp: "tame s (toggleHelp s)"
  by (simp add: tame_def toggleHelp_def)

lemma tame_toggleStats: "tame s (toggleStats s)"
  by (simp add: tame_def toggleStats_def)

lemma tame_if:
  "tame s (state_of a) \<Longrightarrow> tame s (state_of b) \<Longrightarrow> tame s (state_of (if c then a else b))"
  by simp

lemma tame_main_shortcut: "tame s (state_of (main_shortcut ev s))"
  unfolding main_shortcut_def Let_def
proof (intro tame_if)
  show "tame s (state_of (case digit_of_key (key ev) of None \<Rightarrow> Done s
                           | Some n \<Rightarrow> handleClassKey n s))"
    by (cases "digit_of_key (key ev)") (simp_all add: tame_of_obs)
qed (simp_all add: tame_of_obs tame_toggleHelp tame_toggleStats not_awaited_def)

lemma tame_filter_mode:
  "tame s (state_of (andThen (case digit_of_key k of None \<Rightarrow> Done s | Some n \<Rightarrow> applyFilter n s)
                      (\<lambda>s1. Done (s1\<lparr>filterMode := False\<rparr>))))"
  by (cases "digit_of_key k") (simp_all add: state_of_andThen tame_of_obs)

lemma tame_closeOverlay: "tame s (closeOverlay s)"
  by (simp add: tame_def)

lemma handleKeyDown_confirm:
  assumes "activeOverlay s = Some Commit" and "key ev = ''Enter''"
    and "target_tagName ev \<noteq> ''INPUT''" and "target_tagName ev \<noteq> ''TEXTAREA''"
  shows "handleKeyDown ev s = Done (confirmCommit s)"
  using assms by (simp add: handleKeyDown_def)

lemma handleKeyDown_step:
  "tame s (state_of (handleKeyDown ev s))
   \<or> (activeOverlay s = Some Commit \<and> key ev = ''Enter''
        \<and> state_of (handleKeyDown ev s) = confirmCommit s)"
proof (cases "activeOverlay s = Some Commit \<and> key ev = ''Enter''
    \<and> target_tagName ev \<noteq> ''INPUT'' \<and> target_tagName ev \<noteq> ''TEXTAREA''")
  case True
  then show ?thesis using handleKeyDown_confirm [of s ev] by simp
next
  case False
  have "tame s (state_of (handleKeyDown ev s))"
  proof (cases "target_tagName ev = ''INPUT'' \<or> target_tagName ev = ''TEXTAREA''")
    case True
    then show ?thesis by (simp add: handleKeyDown_def tame_closeOverlay)
  next
    case tgt: False
    show ?thesis
    proof (cases "key ev = ''Escape'' \<and> activeOverlay s \<noteq> None")
      case True
      with tgt show ?thesis by (simp add: handleKeyDown_def tame_closeOverlay)
    next
      case esc: False
      show ?thesis
      proof (cases "activeOverlay s = Some Commit")
        case True
        with False tgt have "key ev \<noteq> ''Enter''" by simp
        with True tgt esc show ?thesis by (simp add: handleKeyDown_def tame_closeOverlay)
      next
        case nc: False
        show ?thesis
        proof (cases "activeOverlay s = Some Help \<or> activeOverlay s = Some Stats")
          case True
          with tgt esc nc show ?thesis by (simp add: handleKeyDown_def tame_closeOverlay)
        next
          case no: False
          show ?thesis
          proof (cases "filterMode s")
            case True
            with tgt esc nc no tame_filter_mode [of s "key ev"] show ?thesis
              by (simp add: handleKeyDown_def tame_closeOverlay)
          next
            case False
            with tgt esc nc no tame_main_shortcut [of s ev] show ?thesis
              by (simp add: handleKeyDown_def tame_closeOverlay)
          qed
        qed
      qed
    qed
  qed
  then show ?thesis by simp
qed

lemma obs_confirmCommit:
  "activeOverlay s = Some Commit \<Longrightarrow>
   obs (confirmCommit s) = (Some Commit, Suc (commit_requests s), inflight_inv s)"
  by (simp add: confirmCommit_def showToast_def obs_def executeCommit_def emit_def
      commit_requests_def inflight_inv_def)

lemma confirmCommit_idle: "activeOverlay s \<noteq> Some Commit \<Longrightarrow> confirmCommit s = s"
  by (simp add: confirmCommit_def)

lemma tame_confirmCommit_resumed: "tame s (confirmCommit_resumed r s)"
  by (simp add: tame_def confirmCommit_resumed_def split: option.splits)

lemma tame_handleChangesCommitted: "tame s (handleChangesCommitted p s)"
  by (simp add: tame_def handleChangesCommitted_def)

lemma tame_handleWebSocketMessage: "tame s (handleWebSocketMessage m s)"
proof (cases m)
  case (ChangesCommitted p)
  then show ?thesis by (simp add: handleWebSocketMessage_def tame_handleChangesCommitted)
qed (simp_all add: tame_of_obs obs_handleWebSocketMessage_other)

lemma tame_toggleStats_resumed: "tame s (toggleStats_resumed s)"
  by (simp add: tame_def toggleStats_resumed_def)

lemma showCommitModal_resumed_step:
  "snd (obs (showCommitModal_resumed r s)) = snd (obs s)
   \<and> (fst (obs (showCommitModal_resumed r s)) = Some Commit \<longrightarrow>
        fst (obs s) = Some Commit \<or> is_nonempty_preview (PreviewResolved r))"
proof (cases r)
  case None
  then show ?thesis by (simp add: showCommitModal_resumed_def)
next
  case (Some p)
  then show ?thesis
    by (cases "total_changes p = 0") (simp_all add: showCommitModal_resumed_def Let_def)
qed

lemma inflight_inv_img_done:
  assumes "inflight_inv s" and "i \<in> set (loading s)"
  shows "inflight_inv (img_onload i (s\<lparr>loading := remove1 i (loading s)\<rparr>))"
    and "inflight_inv (img_onerror i (s\<lparr>loading := remove1 i (loading s)\<rparr>))"
  using assms by (auto simp: inflight_inv_def img_onload_def img_onerror_def)

lemma img_done_quiet:
  "activeOverlay (img_onload i (s\<lparr>loading := l\<rparr>)) = activeOverlay s"
  "commit_requests (img_onload i (s\<lparr>loading := l\<rparr>)) = commit_requests s"
  "activeOverlay (img_onerror i (s\<lparr>loading := l\<rparr>)) = activeOverlay s"
  "commit_requests (img_onerror i (s\<lparr>loading := l\<rparr>)) = commit_requests s"
  by (simp_all add: img_onload_def img_onerror_def commit_requests_def)

text \<open>
  One step of the event loop: a commit request is issued only by a confirmation while
  the commit overlay is open; the commit overlay opens only when a preview with at
  least one change arrives; the prefetcher's bookkeeping stays consistent.
\<close>

lemma handle_step:
  "(commit_requests (handle e s) = commit_requests s
      \<or> (activeOverlay s = Some Commit \<and> is_confirm e
           \<and> commit_requests (handle e s) = Suc (commit_requests s)))
   \<and> (activeOverlay (handle e s) = Some Commit \<longrightarrow>
        activeOverlay s = Some Commit \<or> is_nonempty_preview e)
   \<and> (inflight_inv s \<longrightarrow> inflight_inv (handle e s))"
proof -
  have from_tame: "tame s (handle e s) \<Longrightarrow> ?thesis"
    by (drule tame_D) simp
  have from_obs: "obs (handle e s) = obs s \<Longrightarrow> ?thesis"
    by (rule from_tame) (rule tame_of_obs)
  have confirmed: "activeOverlay s = Some Commit \<Longrightarrow> is_confirm e \<Longrightarrow>
      handle e s = confirmCommit s \<Longrightarrow> ?thesis"
    using obs_confirmCommit [of s] by (simp add: obs_def)
  show ?thesis
  proof (cases e)
    case (KeyDown ev)
    from handleKeyDown_step [of s ev] show ?thesis
    proof
      assume "tame s (state_of (handleKeyDown ev s))"
      then show ?thesis using KeyDown by (intro from_tame) simp
    next
      assume "activeOverlay s = Some Commit \<and> key ev = ''Enter''
          \<and> state_of (handleKeyDown ev s) = confirmCommit s"
      then show ?thesis using KeyDown by (intro confirmed) simp_all
    qed
  next
    case (ClickClassButton i)
    then show ?thesis by (intro from_obs) simp
  next
    case ClickDelete
    then show ?thesis by (intro from_obs) simp
  next
    case ClickUndo
    then show ?thesis by (intro from_obs) simp
  next
    case ClickCommit
    then show ?thesis by (intro from_obs) simp
  next
    case ClickConfirmCommit
    show ?thesis
    proof (cases "activeOverlay s = Some Commit")
      case True
      then show ?thesis using ClickConfirmCommit by (intro confirmed) simp_all
    next
      case False
      then show ?thesis using ClickConfirmCommit
        by (intro from_obs) (simp add: confirmCommit_idle)
    qed
  next
    case ClickCancelCommit
    then show ?thesis using tame_closeOverlay [of s] by (intro from_tame) simp
  next
    case ClickBackdrop
    then show ?thesis using tame_closeOverlay [of s] by (intro from_tame) simp
  next
    case (ClickFolder p)
    then show ?thesis by (intro from_obs) simp
  next
    case WsOpened
    then show ?thesis by (intro from_obs) simp
  next
    case (WsMessage m)
    then show ?thesis using tame_handleWebSocketMessage [of s m] by (intro from_tame) simp
  next
    case WsClosed
    then show ?thesis by (intro from_obs) simp
  next
    case WsErrored
    then show ?thesis by (intro from_obs) simp
  next
    case (TimerFired t ok)
    then show ?thesis by (intro from_obs) simp
  next
    case (ImgLoaded i)
    then show ?thesis using inflight_inv_img_done(1) [of s i] by (simp add: img_done_quiet)
  next
    case (ImgErrored i)
    then show ?thesis using inflight_inv_img_done(2) [of s i] by (simp add: img_done_quiet)
  next
    case DisplayLoaded
    then show ?thesis by (intro from_obs) simp
  next
    case DisplayErrored
    then show ?thesis by (intro from_obs) simp
  next
    case (PreviewResolved r)
    with showCommitModal_resumed_step [of r s] show ?thesis by (simp add: obs_def)
  next
    case (CommitResolved r)
    then show ?thesis using tame_confirmCommit_resumed [of s r] by (intro from_tame) simp
  next
    case (StatsResolved ok)
    then show ?thesis using tame_toggleStats_resumed [of s] by (intro from_tame) simp
  next
    case (ChangeCountResolved r)
    then show ?thesis by (intro from_obs) simp
  next
    case (ReloadResolved r)
    then show ?thesis by (intro from_obs) simp
  next
    case (FolderContextPosted ok)
    then show ?thesis by (intro from_obs) simp
  next
    case (SubfoldersResolved r)
    then show ?thesis by (intro from_obs) simp
  next
    case (FolderNavPosted r)
    then show ?thesis by (intro from_obs) simp
  next
    case (FolderNavSession r)
    then show ?thesis by (intro from_obs) simp
  next
    case (FolderNavSubfolders p r)
    then show ?thesis by (intro from_obs) simp
  qed
qed

lemma run_append: "run (es @ fs) s = run fs (run es s)"
  by (induction es arbitrary: s) simp_all

lemma run_snoc: "run (es @ [e]) s = handle e (run es s)"
  by (simp add: run_append)

text \<open>If a property is false at the start of a run and true at its end, some step made it true.\<close>

lemma run_turning_point:
  "\<not> Q s \<Longrightarrow> Q (run es s) \<Longrightarrow>
   \<exists>es1 e es2. es = es1 @ e # es2 \<and> \<not> Q (run es1 s) \<and> Q (handle e (run es1 s))"
proof (induction es rule: rev_induct)
  case Nil
  then show ?case by simp
next
  case (snoc e es)
  show ?case
  proof (cases "Q (run es s)")
    case True
    from snoc.IH [OF snoc.prems(1) True] obtain es1 e' es2 where
      "es = es1 @ e' # es2" "\<not> Q (run es1 s)" "Q (handle e' (run es1 s))" by blast
    then have "es @ [e] = es1 @ e' # (es2 @ [e]) \<and> \<not> Q (run es1 s) \<and> Q (handle e' (run es1 s))"
      by simp
    then show ?thesis by blast
  next
    case False
    with snoc.prems(2) have "es @ [e] = es @ e # [] \<and> \<not> Q (run es s) \<and> Q (handle e (run es s))"
      by (simp add: run_snoc)
    then show ?thesis by blast
  qed
qed


section \<open>Commit needs a preview and a confirmation\<close>

lemma is_nonempty_preview_D:
  "is_nonempty_preview e \<Longrightarrow> \<exists>p. e = PreviewResolved (Some p) \<and> total_changes p \<noteq> 0"
  by (erule is_nonempty_preview.elims) simp_all

lemma commit_request_origin:
  assumes "activeOverlay s \<noteq> Some Commit"
    and "commit_requests (run es s) \<noteq> commit_requests s"
  shows "\<exists>es1 p es2 c es3.
           es = es1 @ PreviewResolved (Some p) # es2 @ c # es3
           \<and> total_changes p \<noteq> 0 \<and> is_confirm c
           \<and> activeOverlay (run es1 s) \<noteq> Some Commit
           \<and> activeOverlay (run (es1 @ PreviewResolved (Some p) # es2) s) = Some Commit
           \<and> commit_requests (run (es1 @ PreviewResolved (Some p) # es2) s) = commit_requests s"
proof -
  let ?Q = "\<lambda>t. commit_requests t \<noteq> commit_requests s"
  have "\<not> ?Q s" by simp
  from run_turning_point [of ?Q, OF this assms(2)]
  obtain pre c post where es: "es = pre @ c # post"
    and same: "commit_requests (run pre s) = commit_requests s"
    and diff: "commit_requests (handle c (run pre s)) \<noteq> commit_requests s"
    by auto
  from handle_step [of c "run pre s"] same diff
  have ov: "activeOverlay (run pre s) = Some Commit" and conf: "is_confirm c" by auto
  let ?R = "\<lambda>t. activeOverlay t = Some Commit"
  from run_turning_point [of ?R, OF assms(1) ov]
  obtain es1 e es2 where pre: "pre = es1 @ e # es2"
    and before: "activeOverlay (run es1 s) \<noteq> Some Commit"
    and after: "activeOverlay (handle e (run es1 s)) = Some Commit"
    by auto
  from handle_step [of e "run es1 s"] before after have "is_nonempty_preview e" by auto
  then obtain p where e: "e = PreviewResolved (Some p)" and p: "total_changes p \<noteq> 0"
    using is_nonempty_preview_D by blast
  have "es = es1 @ PreviewResolved (Some p) # es2 @ c # post"
    using es pre e by simp
  moreover have "activeOverlay (run (es1 @ PreviewResolved (Some p) # es2) s) = Some Commit"
    using ov pre e by simp
  moreover have "commit_requests (run (es1 @ PreviewResolved (Some p) # es2) s) = commit_requests s"
    using same pre e by simp
  ultimately show ?thesis using p conf before by blast
qed

text \<open>
  C4. \<open>executeCommit\<close> is called by \<open>confirmCommit\<close> alone, and only while the commit
  overlay is the active overlay; the Enter key and the commit button only request a
  preview. When the preview has arrived, \<open>showCommitModal\<close> opens the commit overlay
  if the preview reports changes, and leaves the overlay as it is when it reports
  none or the request failed. Over any sequence of events starting with the commit
  overlay closed: if a commit request is issued, then earlier in the sequence a
  preview reporting at least one change arrived, and later a confirmation (the
  confirm button or Enter) was given while the commit overlay was open.
\<close>

theorem commit_only_after_preview_and_confirmation:
  "(activeOverlay s \<noteq> Some Commit \<and> commit_requests (run es s) \<noteq> commit_requests s \<longrightarrow>
      (\<exists>es1 p es2 c es3.
          es = es1 @ PreviewResolved (Some p) # es2 @ c # es3
          \<and> total_changes p \<noteq> 0 \<and> is_confirm c
          \<and> activeOverlay (run es1 s) \<noteq> Some Commit
          \<and> activeOverlay (run (es1 @ PreviewResolved (Some p) # es2) s) = Some Commit
          \<and> commit_requests (run (es1 @ PreviewResolved (Some p) # es2) s) = commit_requests s))
   \<and> (activeOverlay s \<noteq> Some Commit \<longrightarrow> confirmCommit s = s)
   \<and> (activeOverlay s = Some Commit \<longrightarrow>
        confirmCommit s = executeCommit (showToast TCommitting Info s)
        \<and> commit_requests (confirmCommit s) = Suc (commit_requests s))
   \<and> showCommitModal s = emit (ApiCall GetPreview) s
   \<and> (total_changes p0 = 0 \<longrightarrow>
        activeOverlay (showCommitModal_resumed (Some p0) s) = activeOverlay s
        \<and> commit_requests (showCommitModal_resumed (Some p0) s) = commit_requests s)
   \<and> (total_changes p0 \<noteq> 0 \<longrightarrow>
        activeOverlay (showCommitModal_resumed (Some p0) s) = Some Commit
        \<and> commitPreview (showCommitModal_resumed (Some p0) s) = Some p0)
   \<and> activeOverlay (showCommitModal_resumed None s) = activeOverlay s"
proof -
  have a: "activeOverlay s \<noteq> Some Commit \<and> commit_requests (run es s) \<noteq> commit_requests s \<longrightarrow>
      (\<exists>es1 p es2 c es3.
          es = es1 @ PreviewResolved (Some p) # es2 @ c # es3
          \<and> total_changes p \<noteq> 0 \<and> is_confirm c
          \<and> activeOverlay (run es1 s) \<noteq> Some Commit
          \<and> activeOverlay (run (es1 @ PreviewResolved (Some p) # es2) s) = Some Commit
          \<and> commit_requests (run (es1 @ PreviewResolved (Some p) # es2) s) = commit_requests s)"
    using commit_request_origin [of s es] by blast
  have b: "activeOverlay s \<noteq> Some Commit \<longrightarrow> confirmCommit s = s"
    by (simp add: confirmCommit_def)
  have c: "activeOverlay s = Some Commit \<longrightarrow>
        confirmCommit s = executeCommit (showToast TCommitting Info s)
        \<and> commit_requests (confirmCommit s) = Suc (commit_requests s)"
    using obs_confirmCommit [of s] by (simp add: confirmCommit_def obs_def)
  have d: "showCommitModal s = emit (ApiCall GetPreview) s"
    by (simp add: showCommitModal_def)
  have e: "total_changes p0 = 0 \<longrightarrow>
        activeOverlay (showCommitModal_resumed (Some p0) s) = activeOverlay s
        \<and> commit_requests (showCommitModal_resumed (Some p0) s) = commit_requests s"
    by (simp add: showCommitModal_resumed_def showToast_def emit_def commit_requests_def)
  have f: "total_changes p0 \<noteq> 0 \<longrightarrow>
        activeOverlay (showCommitModal_resumed (Some p0) s) = Some Commit
        \<and> commitPreview (showCommitModal_resumed (Some p0) s) = Some p0"
    by (simp add: showCommitModal_resumed_def openOverlay_def closeOverlay_def Let_def)
  have g: "activeOverlay (showCommitModal_resumed None s) = activeOverlay s"
    by (simp add: showCommitModal_resumed_def showToast_def emit_def)
  from a b c d e f g show ?thesis by blast
qed

lemma key_enter_idle:
  "activeOverlay s = None \<Longrightarrow> \<not> filterMode s \<Longrightarrow>
   handle (key_press ''Enter'') s = showCommitModal s"
  by (simp add: key_press_def handleKeyDown_def main_shortcut_def digit_of_key_def)

lemma key_enter_commit:
  "activeOverlay s = Some Commit \<Longrightarrow> handle (key_press ''Enter'') s = confirmCommit s"
  by (simp add: key_press_def handleKeyDown_def)

lemma example_app_more:
  "filterMode example_app = False" "commit_requests example_app = 0"
  "inflight_inv example_app"
  by (simp_all add: example_app_def example_payload_def loadSession_resumed_def
      constructor_def js_index_def commit_requests_def inflight_inv_def)

theorem commit_only_after_preview_and_confirmation_witness:
  "commit_requests
     (run [key_press ''Enter'', PreviewResolved (Some example_preview), key_press ''Enter'']
        example_app) = 1
   \<and> (\<exists>es1 p es2 c es3.
         [key_press ''Enter'', PreviewResolved (Some example_preview), key_press ''Enter''] =
           es1 @ PreviewResolved (Some p) # es2 @ c # es3
         \<and> total_changes p \<noteq> 0 \<and> is_confirm c)
   \<and> confirmCommit example_app = example_app
   \<and> activeOverlay (showCommitModal_resumed (Some empty_preview) example_app) = None
   \<and> activeOverlay (showCommitModal_resumed (Some example_preview) example_app) = Some Commit"
proof -
  let ?es = "[key_press ''Enter'', PreviewResolved (Some example_preview), key_press ''Enter'']"
  let ?s1 = "showCommitModal example_app"
  let ?s2 = "showCommitModal_resumed (Some example_preview) ?s1"
  have s1: "activeOverlay ?s1 = None" "commit_requests ?s1 = 0" "filterMode ?s1 = False"
    by (simp_all add: showCommitModal_def example_app_fields example_app_more
        commit_requests_def emit_def)
  have s2: "activeOverlay ?s2 = Some Commit" "commit_requests ?s2 = 0"
    using s1(2)
    by (simp_all add: showCommitModal_resumed_def example_preview_def openOverlay_def
        closeOverlay_def Let_def commit_requests_def)
  have s3: "commit_requests (confirmCommit ?s2) = 1"
    using obs_confirmCommit [OF s2(1)] s2(2) by (simp add: obs_def)
  have r: "run ?es example_app = confirmCommit ?s2"
    by (simp add: key_enter_idle key_enter_commit example_app_fields example_app_more s1 s2)
  have n: "commit_requests (run ?es example_app) = 1" using r s3 by simp
  note t = commit_only_after_preview_and_confirmation [of example_app ?es]
  have pre: "activeOverlay example_app \<noteq> Some Commit
      \<and> commit_requests (run ?es example_app) \<noteq> commit_requests example_app"
    using n by (simp add: example_app_fields example_app_more)
  from t [of example_preview] pre
  have a: "\<exists>es1 p es2 c es3.
         ?es = es1 @ PreviewResolved (Some p) # es2 @ c # es3
         \<and> total_changes p \<noteq> 0 \<and> is_confirm c"
    by blast
  have ov: "activeOverlay example_app \<noteq> Some Commit" by (simp add: example_app_fields)
  from t [of example_preview] ov have b: "confirmCommit example_app = example_app" by blast
  have z: "total_changes empty_preview = 0" by (simp add: empty_preview_def)
  from t [of empty_preview] z
  have "activeOverlay (showCommitModal_resumed (Some empty_preview) example_app) =
      activeOverlay example_app" by blast
  then have c: "activeOverlay (showCommitModal_resumed (Some empty_preview) example_app) = None"
    by (simp add: example_app_fields)
  have nz: "total_changes example_preview \<noteq> 0" by (simp add: example_preview_def)
  from t [of example_preview] nz
  have d: "activeOverlay (showCommitModal_resumed (Some example_preview) example_app) = Some Commit"
    by blast
  from n a b c d show ?thesis by blast
qed

section \<open>The prefetch window\<close>



lemma displayLoading_kept [simp]:
  "displayLoading (prefetchImage i s) = displayLoading s"
  "displayLoading (cleanImageCache s) = displayLoading s"
  "displayLoading (emit e s) = displayLoading s"
  "displayLoading (sendWebSocketMessage m s) = displayLoading s"
  "displayLoading (updateFolderContext f s) = displayLoading s"
  by (simp_all add: prefetchImage_def start_image_load_def emit_def cleanImageCache_def
      sendWebSocketMessage_def updateFolderContext_def)

lemma displayLoading_fold_prefetchImage [simp]:
  "displayLoading (fold prefetchImage ids s) = displayLoading s"
  by (induction ids arbitrary: s) simp_all

lemma prefetchingImages_kept [simp]:
  "prefetchingImages (updateFolderContext f s) = prefetchingImages s"
  by (simp add: updateFolderContext_def)









section \<open>Reconnection with backoff\<close>

lemma scheduleReconnect_unfold:
  "scheduleReconnect s =
     s\<lparr>connectionStatusHidden := False,
       timers := timers s @
         [(timer_next s, ReconnectCb, WS_RECONNECT_DELAYS ! min (wsReconnectAttempt s) 5)],
       timer_next := timer_next s + 1,
       wsReconnectTimeout := Some (timer_next s)\<rparr>"
proof -
  have l: "length WS_RECONNECT_DELAYS - Suc 0 = 5" by (simp add: WS_RECONNECT_DELAYS_def)
  show ?thesis
    by (simp add: scheduleReconnect_def Let_def setTimeout_def showConnectionStatus_def l)
qed

lemma stopHeartbeat_fields [simp]:
  "ws (stopHeartbeat s) = ws s"
  "wsReconnectAttempt (stopHeartbeat s) = wsReconnectAttempt s"
  "timer_next (stopHeartbeat s) = timer_next s"
  "connectionStatusHidden (stopHeartbeat s) = connectionStatusHidden s"
  "set (timers (stopHeartbeat s)) \<subseteq> set (timers s)"
  "effects (stopHeartbeat s) = effects s"
  by (auto simp: stopHeartbeat_def clearInterval_def clearTimeout_def split: option.splits)

text \<open>What a close does: the indicator is shown and one timer is added, with the delay of the attempt.\<close>

lemma ws_closed_step:
  assumes "ws s \<noteq> None"
  shows "handle WsClosed s =
     (stopHeartbeat (s\<lparr>ws := Some CLOSED\<rparr>))
       \<lparr>connectionStatusHidden := False,
        timers := timers (stopHeartbeat (s\<lparr>ws := Some CLOSED\<rparr>)) @
          [(timer_next s, ReconnectCb, WS_RECONNECT_DELAYS ! min (wsReconnectAttempt s) 5)],
        timer_next := timer_next s + 1,
        wsReconnectTimeout := Some (timer_next s)\<rparr>"
  using assms by (cases "ws s") (simp_all add: ws_onclose_def scheduleReconnect_unfold)

lemma find_last_entry:
  "\<forall>p \<in> set xs. fst p \<noteq> t \<Longrightarrow> List.find (\<lambda>p. fst p = t) (xs @ [(t, y)]) = Some (t, y)"
  by (induction xs) auto

lemma failed_round_facts:
  assumes ws: "ws s \<noteq> None" and fresh: "timers_fresh s"
  shows "wsReconnectAttempt (failed_round s) = wsReconnectAttempt s + 1"
    and "ws (failed_round s) \<noteq> None"
    and "timers_fresh (failed_round s)"
    and "\<not> connectionStatusHidden (failed_round s)"
    and "failed_round s = handle (TimerFired (timer_next s) True) (handle WsClosed s)"
    and "ws (failed_round s) = Some CONNECTING"
    and "wsReconnectTimeout (failed_round s) = None"
    and "effects (handle WsClosed s) = effects s"
    and "effects (failed_round s) = effects s @ [WsConnect]"
proof -
  let ?h = "stopHeartbeat (s\<lparr>ws := Some CLOSED\<rparr>)"
  let ?t = "timer_next s"
  let ?d = "WS_RECONNECT_DELAYS ! min (wsReconnectAttempt s) 5"
  let ?s1 = "handle WsClosed s"
  note c = ws_closed_step [OF ws]
  have old: "\<forall>p \<in> set (timers ?h). fst p < ?t"
    using fresh stopHeartbeat_fields(5) [of "s\<lparr>ws := Some CLOSED\<rparr>"]
    by (auto simp: timers_fresh_def)
  then have ne: "\<forall>p \<in> set (timers ?h). fst p \<noteq> ?t" by auto
  have pos: "0 < ?t" using fresh by (simp add: timers_fresh_def)
  have tm: "timers ?s1 = timers ?h @ [(?t, ReconnectCb, ?d)]"
    and to: "wsReconnectTimeout ?s1 = Some ?t"
    unfolding c by simp_all
  have fnd: "List.find (\<lambda>p. fst p = ?t) (timers ?s1) = Some (?t, ReconnectCb, ?d)"
    unfolding tm by (rule find_last_entry [OF ne])
  have flt: "filter (\<lambda>q. fst q \<noteq> ?t) (timers ?s1) = timers ?h"
    unfolding tm using ne by (simp add: filter_id_conv)
  have ft: "handle (TimerFired ?t True) ?s1 = fire_timer ?t True ?s1" by simp
  have fr: "failed_round s =
      reconnect_callback True (?s1\<lparr>timers := timers ?h\<rparr>)"
    by (simp add: failed_round_def Let_def to ft fire_timer_def fnd flt del: handle.simps)
  have rc: "reconnect_callback True (?s1\<lparr>timers := timers ?h\<rparr>) =
      emit WsConnect
        (?s1\<lparr>timers := timers ?h, wsReconnectAttempt := wsReconnectAttempt s + 1,
              wsReconnectTimeout := None, ws := Some CONNECTING\<rparr>)"
    using pos ne unfolding c
    by (simp add: reconnect_callback_def connectWebSocket_def Let_def truthy_handle_def
        clearTimeout_def filter_id_conv)
  have fin: "failed_round s =
      emit WsConnect
        (?s1\<lparr>timers := timers ?h, wsReconnectAttempt := wsReconnectAttempt s + 1,
              wsReconnectTimeout := None, ws := Some CONNECTING\<rparr>)"
    by (simp only: fr rc)
  have s1f: "connectionStatusHidden ?s1 = False" "timer_next ?s1 = ?t + 1"
    unfolding c by simp_all
  show "wsReconnectAttempt (failed_round s) = wsReconnectAttempt s + 1"
    unfolding fin by (simp del: handle.simps)
  show "ws (failed_round s) \<noteq> None" unfolding fin by (simp del: handle.simps)
  show "\<not> connectionStatusHidden (failed_round s)"
    unfolding fin using s1f by (simp del: handle.simps)
  show "timers_fresh (failed_round s)"
    unfolding fin using old pos s1f by (auto simp: timers_fresh_def simp del: handle.simps)
  show "failed_round s = handle (TimerFired ?t True) ?s1"
    by (simp add: failed_round_def Let_def to del: handle.simps)
  show "ws (failed_round s) = Some CONNECTING" unfolding fin by (simp del: handle.simps)
  show "wsReconnectTimeout (failed_round s) = None" unfolding fin by (simp del: handle.simps)
  show ef: "effects ?s1 = effects s" unfolding c by simp
  show "effects (failed_round s) = effects s @ [WsConnect]"
    unfolding fin using ef by (simp add: emit_def del: handle.simps)
qed

lemma failed_rounds:
  assumes "ws s \<noteq> None" and "timers_fresh s"
  shows "wsReconnectAttempt ((failed_round ^^ n) s) = wsReconnectAttempt s + n
     \<and> ws ((failed_round ^^ n) s) \<noteq> None \<and> timers_fresh ((failed_round ^^ n) s)"
proof (induction n)
  case 0
  from assms show ?case by simp
next
  case (Suc n)
  then show ?case using failed_round_facts [of "(failed_round ^^ n) s"] by simp
qed

text \<open>
  C5. Start from a replica with a socket whose attempt counter is 0 (as it is at
  construction and after every open). After \<open>n\<close> failed connections in a row, each
  a close followed by the firing of the reconnection timer it scheduled, the counter
  is \<open>n\<close>, and the next close schedules the reconnection after the \<open>n\<close>-th delay of
  1000, 2000, 4000, 8000, 16000, 30000 ms, the last one for every \<open>n\<close> from 5 on; the
  connection indicator is shown from the close on and still when the timer has
  fired. The close itself has no effect on the outside. When the scheduled timer
  fires, the reconnection is attempted: the timer handle is cleared, one socket is
  constructed, which is the only effect, and the replica's socket is that new one, in
  state \<open>CONNECTING\<close>. An open sets the counter to 0 and hides the indicator.
\<close>

theorem reconnect_backoff:
  assumes "ws s \<noteq> None" and "timers_fresh s" and "wsReconnectAttempt s = 0"
  shows "wsReconnectAttempt ((failed_round ^^ n) s) = n
     \<and> wsReconnectTimeout (handle WsClosed ((failed_round ^^ n) s)) =
         Some (timer_next ((failed_round ^^ n) s))
     \<and> last (timers (handle WsClosed ((failed_round ^^ n) s))) =
         (timer_next ((failed_round ^^ n) s), ReconnectCb,
          [1000, 2000, 4000, 8000, 16000, 30000] ! min n 5)
     \<and> (5 \<le> n \<longrightarrow>
          last (timers (handle WsClosed ((failed_round ^^ n) s))) =
            (timer_next ((failed_round ^^ n) s), ReconnectCb, 30000))
     \<and> \<not> connectionStatusHidden (handle WsClosed ((failed_round ^^ n) s))
     \<and> \<not> connectionStatusHidden (failed_round ((failed_round ^^ n) s))
     \<and> effects (handle WsClosed ((failed_round ^^ n) s)) = effects ((failed_round ^^ n) s)
     \<and> failed_round ((failed_round ^^ n) s) =
         handle (TimerFired (timer_next ((failed_round ^^ n) s)) True)
           (handle WsClosed ((failed_round ^^ n) s))
     \<and> ws (failed_round ((failed_round ^^ n) s)) = Some CONNECTING
     \<and> wsReconnectTimeout (failed_round ((failed_round ^^ n) s)) = None
     \<and> effects (failed_round ((failed_round ^^ n) s)) =
         effects ((failed_round ^^ n) s) @ [WsConnect]
     \<and> (ws u \<noteq> None \<longrightarrow>
          wsReconnectAttempt (handle WsOpened u) = 0
          \<and> connectionStatusHidden (handle WsOpened u)
          \<and> ws (handle WsOpened u) = Some OPEN)"
proof -
  let ?sn = "(failed_round ^^ n) s"
  from failed_rounds [OF assms(1,2), of n] assms(3)
  have n: "wsReconnectAttempt ?sn = n" and w: "ws ?sn \<noteq> None" and f: "timers_fresh ?sn"
    by simp_all
  note c = ws_closed_step [OF w]
  have a: "wsReconnectTimeout (handle WsClosed ?sn) = Some (timer_next ?sn)"
    unfolding c by simp
  have b: "last (timers (handle WsClosed ?sn)) =
         (timer_next ?sn, ReconnectCb, [1000, 2000, 4000, 8000, 16000, 30000] ! min n 5)"
    unfolding c by (simp add: n WS_RECONNECT_DELAYS_def)
  have b': "5 \<le> n \<longrightarrow>
      last (timers (handle WsClosed ?sn)) = (timer_next ?sn, ReconnectCb, 30000)"
    using b by (simp add: min_def)
  have d: "\<not> connectionStatusHidden (handle WsClosed ?sn)" unfolding c by simp
  have e: "\<not> connectionStatusHidden (failed_round ?sn)"
    using failed_round_facts(4) [OF w f] .
  have g1: "effects (handle WsClosed ?sn) = effects ?sn"
    using failed_round_facts(8) [OF w f] .
  have g2: "failed_round ?sn = handle (TimerFired (timer_next ?sn) True) (handle WsClosed ?sn)"
    using failed_round_facts(5) [OF w f] .
  have g3: "ws (failed_round ?sn) = Some CONNECTING"
    using failed_round_facts(6) [OF w f] .
  have g4: "wsReconnectTimeout (failed_round ?sn) = None"
    using failed_round_facts(7) [OF w f] .
  have g5: "effects (failed_round ?sn) = effects ?sn @ [WsConnect]"
    using failed_round_facts(9) [OF w f] .
  have o: "ws u \<noteq> None \<longrightarrow>
          wsReconnectAttempt (handle WsOpened u) = 0
          \<and> connectionStatusHidden (handle WsOpened u)
          \<and> ws (handle WsOpened u) = Some OPEN"
    by (cases "ws u")
       (simp_all add: ws_onopen_def startHeartbeat_def setInterval_def setTimeout_def Let_def
        split_def hideConnectionStatus_def stopHeartbeat_def clearInterval_def
        clearTimeout_def sendWebSocketMessage_def
        emit_def split: option.splits)
  from n a b b' d e g1 g2 g3 g4 g5 o show ?thesis by blast
qed

theorem reconnect_backoff_witness:
  "wsReconnectAttempt ((failed_round ^^ 2) example_app) = 2
   \<and> last (timers (handle WsClosed ((failed_round ^^ 2) example_app))) =
       (timer_next ((failed_round ^^ 2) example_app), ReconnectCb, 4000)
   \<and> last (timers (handle WsClosed ((failed_round ^^ 7) example_app))) =
       (timer_next ((failed_round ^^ 7) example_app), ReconnectCb, 30000)
   \<and> \<not> connectionStatusHidden (handle WsClosed ((failed_round ^^ 2) example_app))
   \<and> ws (failed_round ((failed_round ^^ 2) example_app)) = Some CONNECTING
   \<and> effects (failed_round ((failed_round ^^ 2) example_app)) =
       effects ((failed_round ^^ 2) example_app) @ [WsConnect]
   \<and> ws (failed_round example_app) = Some CONNECTING
   \<and> effects (failed_round example_app) = [WsConnect]
   \<and> wsReconnectAttempt (handle WsOpened example_app) = 0
   \<and> connectionStatusHidden (handle WsOpened example_app)"
proof -
  have h: "ws example_app \<noteq> None" "timers_fresh example_app" "wsReconnectAttempt example_app = 0"
    by (simp_all add: example_app_fields timers_fresh_def)
  note t2 = reconnect_backoff [OF h, of 2 example_app]
  note t7 = reconnect_backoff [OF h, of 7 example_app]
  have five: "(5::nat) \<le> 7" by simp
  from t2 have a: "wsReconnectAttempt ((failed_round ^^ 2) example_app) = 2" by blast
  from t2 have "last (timers (handle WsClosed ((failed_round ^^ 2) example_app))) =
       (timer_next ((failed_round ^^ 2) example_app), ReconnectCb,
        [1000, 2000, 4000, 8000, 16000, 30000] ! min 2 5)" by blast
  then have b: "last (timers (handle WsClosed ((failed_round ^^ 2) example_app))) =
       (timer_next ((failed_round ^^ 2) example_app), ReconnectCb, 4000)" by simp
  from t7 five have c: "last (timers (handle WsClosed ((failed_round ^^ 7) example_app))) =
       (timer_next ((failed_round ^^ 7) example_app), ReconnectCb, 30000)" by blast
  from t2 have d: "\<not> connectionStatusHidden (handle WsClosed ((failed_round ^^ 2) example_app))"
    by blast
  from t2 have d2: "ws (failed_round ((failed_round ^^ 2) example_app)) = Some CONNECTING
      \<and> effects (failed_round ((failed_round ^^ 2) example_app)) =
          effects ((failed_round ^^ 2) example_app) @ [WsConnect]" by blast
  note t0 = reconnect_backoff [OF h, of 0 example_app]
  from t0 have "ws (failed_round ((failed_round ^^ 0) example_app)) = Some CONNECTING
      \<and> effects (failed_round ((failed_round ^^ 0) example_app)) =
          effects ((failed_round ^^ 0) example_app) @ [WsConnect]" by blast
  then have d3: "ws (failed_round example_app) = Some CONNECTING
      \<and> effects (failed_round example_app) = [WsConnect]"
    by (simp add: example_app_fields)
  from t2 h(1) have e: "wsReconnectAttempt (handle WsOpened example_app) = 0
      \<and> connectionStatusHidden (handle WsOpened example_app)" by blast
  from a b c d d2 d3 e show ?thesis by blast
qed

section \<open>The double-press combo\<close>

lemma key_g_idle:
  "activeOverlay s = None \<Longrightarrow> \<not> filterMode s \<Longrightarrow>
   handle (key_press ''g'') s = state_of (handleGKey s)"
  by (simp add: key_press_def handleKeyDown_def main_shortcut_def digit_of_key_def)

lemma key_x_idle:
  "activeOverlay s = None \<Longrightarrow> \<not> filterMode s \<Longrightarrow> handle (key_press ''x'') s = s"
  by (simp add: key_press_def handleKeyDown_def main_shortcut_def digit_of_key_def)

lemma handleGKey_first:
  "lastKey s \<noteq> Some ''g'' \<Longrightarrow>
   handleGKey s =
     Done (s\<lparr>lastKey := Some ''g'',
             timers := timers s @ [(timer_next s, KeyComboCb, 300)],
             timer_next := timer_next s + 1,
             keyComboTimeout := Some (timer_next s)\<rparr>)"
  by (simp add: handleGKey_def setTimeout_def Let_def DOUBLE_KEY_TIMEOUT_def)

lemma handleGKey_second:
  "lastKey s = Some ''g'' \<Longrightarrow>
   handleGKey s = navigateToFirstInFolder ((clearTimeout (keyComboTimeout s) s)\<lparr>lastKey := None\<rparr>)"
  by (simp add: handleGKey_def)

lemma clearTimeout_fields [simp]:
  "heap (clearTimeout h s) = heap s"
  "session (clearTimeout h s) = session s"
  "currentImage (clearTimeout h s) = currentImage s"
  "lastKey (clearTimeout h s) = lastKey s"
  "activeOverlay (clearTimeout h s) = activeOverlay s"
  by (simp_all add: clearTimeout_def split: option.splits)

lemma example_at_last_fields:
  "activeOverlay example_at_last = None" "filterMode example_at_last = False"
  "lastKey example_at_last = None" "timers example_at_last = []"
  "timer_next example_at_last = 1" "currentImage example_at_last = Some 2"
  "session example_at_last = Some (example_session\<lparr>current_index := 2\<rparr>)"
  "heap example_at_last = heap example_app"
  by (simp_all add: example_at_last_def example_app_fields example_app_more)

lemma root_folder:
  "parent_folder ''a.jpg'' = []" "parent_folder ''c.jpg'' = []"
  by (simp_all add: parent_folder_def substring0_def lastIndexOf_def)

text \<open>
  C8 on the code. From idle, \<open>g\<close> arms a 300 ms timer and awaits the second key, and
  the timer's expiry returns to idle; a second \<open>g\<close> cancels the timer, returns to idle
  and moves to the first image of the folder. But another key pressed while awaiting
  changes nothing: \<open>lastKey\<close> is still \<open>g\<close> and the timer is still armed, so a later
  \<open>g\<close> completes the combo and navigates, although it does not follow a \<open>g\<close>.
\<close>

theorem g_combo_survives_other_key:
  "lastKey (run [key_press ''g''] example_at_last) = Some ''g''
   \<and> timers (run [key_press ''g''] example_at_last) = [(1, KeyComboCb, 300)]
   \<and> lastKey (run [key_press ''g'', TimerFired 1 True] example_at_last) = None
   \<and> session (run [key_press ''g'', key_press ''g''] example_at_last) =
       Some (example_session\<lparr>current_index := 0\<rparr>)
   \<and> lastKey (run [key_press ''g'', key_press ''g''] example_at_last) = None
   \<and> timers (run [key_press ''g'', key_press ''g''] example_at_last) = []
   \<and> run [key_press ''g'', key_press ''x''] example_at_last = run [key_press ''g''] example_at_last
   \<and> lastKey (run [key_press ''g'', key_press ''x''] example_at_last) = Some ''g''
   \<and> session (run [key_press ''g'', key_press ''x''] example_at_last) =
       Some (example_session\<lparr>current_index := 2\<rparr>)
   \<and> session (run [key_press ''g'', key_press ''x'', key_press ''g''] example_at_last) =
       Some (example_session\<lparr>current_index := 0\<rparr>)"
proof -
  define s1 where "s1 =
    example_at_last\<lparr>lastKey := Some ''g'',
      timers := timers example_at_last @ [(timer_next example_at_last, KeyComboCb, 300)],
      timer_next := timer_next example_at_last + 1,
      keyComboTimeout := Some (timer_next example_at_last)\<rparr>"
  define c where "c = (clearTimeout (keyComboTimeout s1) s1)\<lparr>lastKey := None\<rparr>"
  have hg1: "handleGKey example_at_last = Done s1"
    unfolding s1_def by (rule handleGKey_first) (simp add: example_at_last_fields)
  have g1: "handle (key_press ''g'') example_at_last = s1"
    by (simp add: key_g_idle hg1 example_at_last_fields)
  have f1: "activeOverlay s1 = None" "\<not> filterMode s1" "lastKey s1 = Some ''g''"
    "timers s1 = [(1, KeyComboCb, 300)]"
    "session s1 = Some (example_session\<lparr>current_index := 2\<rparr>)"
    "keyComboTimeout s1 = Some 1" "currentImage s1 = Some 2" "heap s1 = heap example_app"
    by (simp_all add: s1_def example_at_last_fields)
  have x: "handle (key_press ''x'') s1 = s1"
    by (rule key_x_idle) (simp_all add: f1)
  have fc: "currentImage c = Some 2" "session c = Some (example_session\<lparr>current_index := 2\<rparr>)"
    "heap c = heap example_app" "timers c = []" "lastKey c = None"
    by (simp_all add: c_def f1 clearTimeout_def)
  have fi: "findIndex (same_folder c (parent_folder (img_id (heap c 2))))
      (images (example_session\<lparr>current_index := 2\<rparr>)) = Some 0"
    by (simp add: findIndex_def same_folder_def fc(3) example_app_heap root_folder)
  have nav: "navigateToFirstInFolder c = navigateToIndex 0 c"
    using fi by (simp add: navigateToFirstInFolder_def fc(1,2))
  have hg2: "handleGKey s1 = navigateToFirstInFolder c"
    unfolding c_def by (rule handleGKey_second) (rule f1(3))
  have g2: "handle (key_press ''g'') s1 = state_of (navigateToIndex 0 c)"
    using key_g_idle [OF f1(1,2)] hg2 nav by simp
  have v: "session (state_of (navigateToIndex 0 c)) =
      Some (example_session\<lparr>current_index := 0\<rparr>)"
    using navigateToIndex_valid(2) [OF fc(2), of 0] by simp
  have k: "lastKey (state_of (navigateToIndex 0 c)) = None"
    "timers (state_of (navigateToIndex 0 c)) = []"
    using fc(4,5) by simp_all
  have tf: "lastKey (handle (TimerFired 1 True) s1) = None"
    by (simp add: fire_timer_def keycombo_callback_def f1)
  have r1: "run [key_press ''g''] example_at_last = s1" using g1 by simp
  have r2: "run [key_press ''g'', key_press ''x''] example_at_last = s1" using g1 x by simp
  have r3: "run [key_press ''g'', key_press ''g''] example_at_last =
      state_of (navigateToIndex 0 c)"
    using g1 g2 by simp
  have r4: "run [key_press ''g'', key_press ''x'', key_press ''g''] example_at_last =
      state_of (navigateToIndex 0 c)"
    using g1 x g2 by simp
  have r5: "run [key_press ''g'', TimerFired 1 True] example_at_last =
      handle (TimerFired 1 True) s1"
    using g1 by simp
  show ?thesis
    unfolding r1 r2 r3 r4 r5 using f1 v k tf by simp
qed

end
